theory Spec2Isabelle
  imports Main
begin

section \<open>Strings\<close>

text \<open>
  JavaScript strings are sequences of UTF-16 code units.  The embedding uses \<^typ>\<open>string\<close>,
  whose characters are the code units below 256 (ASCII and Latin-1); the library functions
  \<^verbatim>\<open>trim\<close>, \<^verbatim>\<open>toLowerCase\<close>, \<^verbatim>\<open>startsWith\<close>, \<^verbatim>\<open>split\<close>, \<^verbatim>\<open>join\<close> and the regular
  expression classes are given their ECMAScript meaning on that range.
\<close>

definition is_space :: "char \<Rightarrow> bool" where
  \<comment> \<open>\<^verbatim>\<open>\s\<close> and the characters removed by \<^verbatim>\<open>trim\<close>: TAB, LF, VT, FF, CR, SP, NBSP\<close>
  "is_space c = (let n = (of_char c :: nat) in (9 \<le> n \<and> n \<le> 13) \<or> n = 32 \<or> n = 160)"

definition is_word :: "char \<Rightarrow> bool" where
  \<comment> \<open>\<^verbatim>\<open>\w\<close> is \<^verbatim>\<open>[A-Za-z0-9_]\<close>\<close>
  "is_word c = (let n = (of_char c :: nat) in
     (48 \<le> n \<and> n \<le> 57) \<or> (65 \<le> n \<and> n \<le> 90) \<or> n = 95 \<or> (97 \<le> n \<and> n \<le> 122))"

definition is_line_terminator :: "char \<Rightarrow> bool" where
  \<comment> \<open>the characters that \<^verbatim>\<open>.\<close> refuses: LF and CR\<close>
  "is_line_terminator c = (let n = (of_char c :: nat) in n = 10 \<or> n = 13)"

definition canonicalize :: "char \<Rightarrow> nat" where
  \<comment> \<open>the code unit compared under the \<^verbatim>\<open>i\<close> flag: the upper-case form of the character\<close>
  "canonicalize c = (let n = (of_char c :: nat) in
     if (97 \<le> n \<and> n \<le> 122) \<or> (224 \<le> n \<and> n \<le> 254 \<and> n \<noteq> 247) then n - 32 else n)"

definition lower_char :: "char \<Rightarrow> char" where
  "lower_char c = (let n = (of_char c :: nat) in
     if (65 \<le> n \<and> n \<le> 90) \<or> (192 \<le> n \<and> n \<le> 222 \<and> n \<noteq> 215) then char_of (n + 32) else c)"

definition toLowerCase :: "string \<Rightarrow> string" where
  "toLowerCase s = map lower_char s"

definition trim :: "string \<Rightarrow> string" where
  "trim s = rev (dropWhile is_space (rev (dropWhile is_space s)))"

definition startsWith :: "string \<Rightarrow> string \<Rightarrow> bool" where
  "startsWith s p = (take (length p) s = p)"

fun split_on :: "char \<Rightarrow> string \<Rightarrow> string \<Rightarrow> string list" where
  "split_on d acc [] = [rev acc]"
| "split_on d acc (c # cs) =
     (if c = d then rev acc # split_on d [] cs else split_on d (c # acc) cs)"

definition split_lines :: "string \<Rightarrow> string list" where
  \<comment> \<open>\<^verbatim>\<open>content.split('\n')\<close>\<close>
  "split_lines s = split_on (CHR 0x0A) [] s"

fun join :: "string \<Rightarrow> string list \<Rightarrow> string" where
  "join sep [] = []"
| "join sep [x] = x"
| "join sep (x # y # ys) = x @ sep @ join sep (y # ys)"

fun digit_char :: "nat \<Rightarrow> char" where
  "digit_char n = char_of (48 + n)"

fun string_of_nat :: "nat \<Rightarrow> string" where
  "string_of_nat n = (if n < 10 then [digit_char n] else string_of_nat (n div 10) @ [digit_char (n mod 10)])"

section \<open>Regular expressions\<close>

text \<open>
  The patterns of the source are regular expression literals.  They are embedded as values of
  a datatype, and matched by a backtracking matcher that tries the alternatives in the order
  ECMAScript prescribes: the left alternative first, one more iteration first for a greedy
  quantifier, the continuation first for a lazy one.  An iteration of a quantifier that
  consumes nothing is refused, as in ECMAScript, so a quantifier over a remaining input of
  \<open>n\<close> characters iterates at most \<open>n\<close> times.
\<close>

datatype cclass =
    Lit char
  | WordC
  | SpaceC
  | Dot
  | AnyC
  | NotOf "char list"
  | OneOf "char list"

fun accepts :: "bool \<Rightarrow> cclass \<Rightarrow> char \<Rightarrow> bool" where
  "accepts ic (Lit a) c = (if ic then canonicalize c = canonicalize a else c = a)"
| "accepts ic WordC c = is_word c"
| "accepts ic SpaceC c = is_space c"
| "accepts ic Dot c = (\<not> is_line_terminator c)"
| "accepts ic AnyC c = True"
| "accepts ic (NotOf cs) c = (c \<notin> set cs)"
| "accepts ic (OneOf cs) c = (c \<in> set cs)"

datatype regex =
    Atom cclass
  | Eps
  | Seq regex regex
  | Alt regex regex
  | Star regex
  | StarLazy regex
  | Group nat regex
  | Bol
  | Eol

record mstate =
  pos :: nat
  rest :: string
  caps :: "nat \<Rightarrow> string option"

type_synonym cont = "mstate \<Rightarrow> mstate option"

fun star_greedy :: "nat \<Rightarrow> (cont \<Rightarrow> cont) \<Rightarrow> cont \<Rightarrow> cont" where
  "star_greedy 0 m k st = k st"
| "star_greedy (Suc n) m k st =
     (case m (\<lambda>st'. if length (rest st') < length (rest st) then star_greedy n m k st' else None) st of
        Some res \<Rightarrow> Some res
      | None \<Rightarrow> k st)"

fun star_lazy :: "nat \<Rightarrow> (cont \<Rightarrow> cont) \<Rightarrow> cont \<Rightarrow> cont" where
  "star_lazy 0 m k st = k st"
| "star_lazy (Suc n) m k st =
     (case k st of
        Some res \<Rightarrow> Some res
      | None \<Rightarrow> m (\<lambda>st'. if length (rest st') < length (rest st) then star_lazy n m k st' else None) st)"

primrec rmatch :: "bool \<Rightarrow> regex \<Rightarrow> cont \<Rightarrow> cont" where
  "rmatch ic (Atom a) k st =
     (case rest st of
        [] \<Rightarrow> None
      | c # cs \<Rightarrow> if accepts ic a c then k (st\<lparr>pos := Suc (pos st), rest := cs\<rparr>) else None)"
| "rmatch ic Eps k st = k st"
| "rmatch ic (Seq r1 r2) k st = rmatch ic r1 (rmatch ic r2 k) st"
| "rmatch ic (Alt r1 r2) k st =
     (case rmatch ic r1 k st of Some res \<Rightarrow> Some res | None \<Rightarrow> rmatch ic r2 k st)"
| "rmatch ic (Star r) k st = star_greedy (length (rest st)) (rmatch ic r) k st"
| "rmatch ic (StarLazy r) k st = star_lazy (length (rest st)) (rmatch ic r) k st"
| "rmatch ic (Group i r) k st =
     rmatch ic r (\<lambda>st'. k (st'\<lparr>caps := (caps st')(i \<mapsto> take (pos st' - pos st) (rest st))\<rparr>)) st"
| "rmatch ic Bol k st = (if pos st = 0 then k st else None)"
| "rmatch ic Eol k st = (if rest st = [] then k st else None)"

fun search :: "bool \<Rightarrow> regex \<Rightarrow> nat \<Rightarrow> string \<Rightarrow> mstate option" where
  "search ic r p [] = rmatch ic r Some \<lparr>pos = p, rest = [], caps = Map.empty\<rparr>"
| "search ic r p (c # cs) =
     (case rmatch ic r Some \<lparr>pos = p, rest = c # cs, caps = Map.empty\<rparr> of
        Some res \<Rightarrow> Some res
      | None \<Rightarrow> search ic r (Suc p) cs)"

definition regex_exec :: "bool \<Rightarrow> regex \<Rightarrow> string \<Rightarrow> (nat \<Rightarrow> string option) option" where
  \<comment> \<open>\<^verbatim>\<open>exec\<close> from index 0, and \<^verbatim>\<open>String.match\<close> without the \<^verbatim>\<open>g\<close> flag: the first match from
      the leftmost start; group 0 is the whole match, an absent group is \<open>None\<close>\<close>
  "regex_exec ic r s = map_option caps (search ic (Group 0 r) 0 s)"

definition regex_test :: "bool \<Rightarrow> regex \<Rightarrow> string \<Rightarrow> bool" where
  "regex_test ic r s = (regex_exec ic r s \<noteq> None)"

definition Str :: "string \<Rightarrow> regex" where
  "Str s = foldr (\<lambda>c r. Seq (Atom (Lit c)) r) s Eps"

definition Plus :: "regex \<Rightarrow> regex" where
  "Plus r = Seq r (Star r)"

definition PlusLazy :: "regex \<Rightarrow> regex" where
  "PlusLazy r = Seq r (StarLazy r)"

definition Opt :: "regex \<Rightarrow> regex" where
  "Opt r = Alt r Eps"

fun seqs :: "regex list \<Rightarrow> regex" where
  "seqs [] = Eps"
| "seqs [r] = r"
| "seqs (r # rs) = Seq r (seqs rs)"

fun alts :: "regex list \<Rightarrow> regex" where
  "alts [] = Eps"
| "alts [r] = r"
| "alts (r # rs) = Alt r (alts rs)"

text \<open>
  The declarative reading of a pattern, without capture groups: \<open>rsem ic r (p, s) (p', s')\<close>
  holds when \<open>r\<close> can consume the input \<open>s\<close> found at position \<open>p\<close> down to \<open>s'\<close> at
  position \<open>p'\<close>.
\<close>

inductive rsem :: "bool \<Rightarrow> regex \<Rightarrow> nat \<times> string \<Rightarrow> nat \<times> string \<Rightarrow> bool" where
  rsem_Atom: "accepts ic a c \<Longrightarrow> rsem ic (Atom a) (p, c # cs) (Suc p, cs)"
| rsem_Eps: "rsem ic Eps x x"
| rsem_Seq: "rsem ic r1 x y \<Longrightarrow> rsem ic r2 y z \<Longrightarrow> rsem ic (Seq r1 r2) x z"
| rsem_Alt1: "rsem ic r1 x y \<Longrightarrow> rsem ic (Alt r1 r2) x y"
| rsem_Alt2: "rsem ic r2 x y \<Longrightarrow> rsem ic (Alt r1 r2) x y"
| rsem_Star0: "rsem ic (Star r) x x"
| rsem_StarS: "rsem ic r x y \<Longrightarrow> length (snd y) < length (snd x) \<Longrightarrow> rsem ic (Star r) y z
     \<Longrightarrow> rsem ic (Star r) x z"
| rsem_StarLazy0: "rsem ic (StarLazy r) x x"
| rsem_StarLazyS: "rsem ic r x y \<Longrightarrow> length (snd y) < length (snd x) \<Longrightarrow> rsem ic (StarLazy r) y z
     \<Longrightarrow> rsem ic (StarLazy r) x z"
| rsem_Group: "rsem ic r x y \<Longrightarrow> rsem ic (Group i r) x y"
| rsem_Bol: "rsem ic Bol (0, s) (0, s)"
| rsem_Eol: "rsem ic Eol (p, []) (p, [])"

definition caps_blind :: "cont \<Rightarrow> bool" where
  \<comment> \<open>a continuation whose success does not depend on the capture groups recorded so far\<close>
  "caps_blind k = (\<forall>st c. (k (st\<lparr>caps := c\<rparr>) = None) = (k st = None))"

section \<open>The extractor (scripts/extract-deprecated-apis.js)\<close>

definition FRONTEND_SOURCE_PATHS :: "string list" where
  "FRONTEND_SOURCE_PATHS =
     [''/home/c_byrne/projects/comfyui-frontend-testing/ComfyUI_frontend-clone-20/src'',
      ''/home/c_byrne/projects/comfyui-frontend-testing/ComfyUI_frontend/src'']"

definition FILE_PATTERNS :: "string list" where
  "FILE_PATTERNS = [''**/*.ts'', ''**/*.vue'', ''**/*.js'']"

definition sp :: regex where
  "sp = Atom SpaceC"

definition word :: regex where
  "word = Atom WordC"

definition deprecated_leading :: regex where
  \<comment> \<open>\<^verbatim>\<open>/@deprecated\s+(.+?)(?:\n|$|\*\/)/gi\<close>\<close>
  "deprecated_leading =
     seqs [Str ''@deprecated'', Plus sp, Group 1 (PlusLazy (Atom Dot)),
           alts [Atom (Lit (CHR 0x0A)), Eol, Str ''*/'']]"

definition deprecated_block :: regex where
  \<comment> \<open>\<^verbatim>\<open>/\/\*\*[\s\S]*?@deprecated[\s\S]*?\*\//gi\<close>\<close>
  "deprecated_block =
     seqs [Str ''/**'', StarLazy (Atom AnyC), Str ''@deprecated'', StarLazy (Atom AnyC), Str ''*/'']"

definition deprecated_line_comment :: regex where
  \<comment> \<open>\<^verbatim>\<open>/\/\/\s*@deprecated\s+(.+)/gi\<close>\<close>
  "deprecated_line_comment =
     seqs [Str ''//'', Star sp, Str ''@deprecated'', Plus sp, Group 1 (Plus (Atom Dot))]"

definition DEPRECATED_PATTERNS :: "regex list" where
  "DEPRECATED_PATTERNS = [deprecated_leading, deprecated_block, deprecated_line_comment]"

datatype kind = Function | Class | Constant | Type | Property | Import | Unknown

fun kind_name :: "kind \<Rightarrow> string" where
  "kind_name Function = ''function''"
| "kind_name Class = ''class''"
| "kind_name Constant = ''constant''"
| "kind_name Type = ''type''"
| "kind_name Property = ''property''"
| "kind_name Import = ''import''"
| "kind_name Unknown = ''unknown''"

record item =
  item_file :: string
  item_line :: nat
  item_reason :: string
  item_context :: string
  item_type :: kind
  item_fullMatch :: string

record DeprecatedApi =
  api_name :: string
  api_reason :: string
  api_file :: string
  api_line :: nat
  api_context :: string

type_synonym registry = "(string \<times> DeprecatedApi list) list"

definition initial_registry :: registry where
  \<comment> \<open>the constructor's \<^verbatim>\<open>this.deprecatedApis\<close>\<close>
  "initial_registry =
     [(''functions'', []), (''classes'', []), (''properties'', []),
      (''constants'', []), (''types'', []), (''imports'', [])]"

definition keep_line :: "string \<Rightarrow> bool" where
  \<comment> \<open>\<^verbatim>\<open>line && !line.startsWith('//') && !line.startsWith('*')\<close>, on the trimmed line\<close>
  "keep_line l = (l \<noteq> [] \<and> \<not> startsWith l ''//'' \<and> \<not> startsWith l ''*'')"

definition getContextualInfo :: "string list \<Rightarrow> nat \<Rightarrow> string" where
  "getContextualInfo lines deprecatedLineIndex =
     (let start = nat (max 0 (int deprecatedLineIndex - 2));
          end = min (length lines) (deprecatedLineIndex + 3);
          contextLines = concat (map (\<lambda>i.
             if i \<noteq> deprecatedLineIndex
             then (let line = trim (lines ! i) in if keep_line line then [line] else [])
             else []) [start..<end])
      in join '' '' contextLines)"

definition context_spec :: "string list \<Rightarrow> nat \<Rightarrow> string" where
  \<comment> \<open>the context as the specification words it: two lines before and three lines after\<close>
  "context_spec lines i =
     join '' '' (filter keep_line (map trim (drop (i - 2) (take i lines) @ take 3 (drop (Suc i) lines))))"

definition function_like :: regex where
  \<comment> \<open>\<^verbatim>\<open>/^(export\s+)?(function|const\s+\w+\s*=\s*\([^)]*\)\s*=>|async\s+function)/\<close>\<close>
  "function_like =
     seqs [Bol, Opt (Group 1 (Seq (Str ''export'') (Plus sp))),
           Group 2 (alts [Str ''function'',
                          seqs [Str ''const'', Plus sp, Plus word, Star sp, Str ''='', Star sp,
                                Str ''('', Star (Atom (NotOf '')'')), Str '')'', Star sp, Str ''=>''],
                          seqs [Str ''async'', Plus sp, Str ''function'']])]"

definition class_like :: regex where
  \<comment> \<open>\<^verbatim>\<open>/^(export\s+)?(class|interface|type)\s+/\<close>\<close>
  "class_like =
     seqs [Bol, Opt (Group 1 (Seq (Str ''export'') (Plus sp))),
           Group 2 (alts [Str ''class'', Str ''interface'', Str ''type'']), Plus sp]"

definition variable_like :: regex where
  \<comment> \<open>\<^verbatim>\<open>/^(export\s+)?(const|let|var)\s+/\<close>\<close>
  "variable_like =
     seqs [Bol, Opt (Group 1 (Seq (Str ''export'') (Plus sp))),
           Group 2 (alts [Str ''const'', Str ''let'', Str ''var'']), Plus sp]"

definition type_alias_like :: regex where
  \<comment> \<open>\<^verbatim>\<open>/^(export\s+)?type\s+/\<close>\<close>
  "type_alias_like =
     seqs [Bol, Opt (Group 1 (Seq (Str ''export'') (Plus sp))), Str ''type'', Plus sp]"

definition property_like :: regex where
  \<comment> \<open>\<^verbatim>\<open>/^\w+\s*:\s*/\<close>\<close>
  "property_like = seqs [Bol, Plus word, Star sp, Str '':'', Star sp]"

definition import_like :: regex where
  \<comment> \<open>\<^verbatim>\<open>/^import\s+/\<close>\<close>
  "import_like = seqs [Bol, Str ''import'', Plus sp]"

definition guessItemType :: "string \<Rightarrow> kind" where
  "guessItemType context' =
     (if regex_test False function_like context' then Function
      else if regex_test False class_like context' then Class
      else if regex_test False variable_like context' then Constant
      else if regex_test False type_alias_like context' then Type
      else if regex_test False property_like context' then Property
      else if regex_test False import_like context' then Import
      else Unknown)"

definition function_name :: regex where
  \<comment> \<open>\<^verbatim>\<open>/(?:function\s+(\w+)|const\s+(\w+)\s*=|(\w+)\s*\([^)]*\)\s*{)/\<close>\<close>
  "function_name =
     alts [seqs [Str ''function'', Plus sp, Group 1 (Plus word)],
           seqs [Str ''const'', Plus sp, Group 2 (Plus word), Star sp, Str ''=''],
           seqs [Group 3 (Plus word), Star sp, Str ''('', Star (Atom (NotOf '')'')), Str '')'',
                 Star sp, Str ''{'']]"

definition class_name :: regex where
  \<comment> \<open>\<^verbatim>\<open>/(?:class|interface|type)\s+(\w+)/\<close>\<close>
  "class_name = seqs [alts [Str ''class'', Str ''interface'', Str ''type''], Plus sp, Group 1 (Plus word)]"

definition constant_name :: regex where
  \<comment> \<open>\<^verbatim>\<open>/(?:const|let|var)\s+(\w+)/\<close>\<close>
  "constant_name = seqs [alts [Str ''const'', Str ''let'', Str ''var''], Plus sp, Group 1 (Plus word)]"

definition type_name :: regex where
  \<comment> \<open>\<^verbatim>\<open>/type\s+(\w+)/\<close>\<close>
  "type_name = seqs [Str ''type'', Plus sp, Group 1 (Plus word)]"

definition property_name :: regex where
  \<comment> \<open>\<^verbatim>\<open>/(\w+)\s*:/\<close>\<close>
  "property_name = seqs [Group 1 (Plus word), Star sp, Str '':'']"

definition import_name :: regex where
  \<comment> \<open>\<^verbatim>\<open>/import\s+.*?from\s+['"]([^'"]+)['"]/\<close>\<close>
  "import_name =
     seqs [Str ''import'', Plus sp, StarLazy (Atom Dot), Str ''from'', Plus sp,
           Atom (OneOf [CHR 0x27, CHR 0x22]), Group 1 (Plus (Atom (NotOf [CHR 0x27, CHR 0x22]))),
           Atom (OneOf [CHR 0x27, CHR 0x22])]"

definition first_word :: regex where
  \<comment> \<open>\<^verbatim>\<open>/(\w+)/\<close>\<close>
  "first_word = Group 1 (Plus word)"

fun patterns :: "kind \<Rightarrow> (regex \<times> nat) option" where
  \<comment> \<open>the pattern of a kind with its number of capture groups; \<^verbatim>\<open>unknown\<close> is no key of the table\<close>
  "patterns Function = Some (function_name, 3)"
| "patterns Class = Some (class_name, 1)"
| "patterns Constant = Some (constant_name, 1)"
| "patterns Type = Some (type_name, 1)"
| "patterns Property = Some (property_name, 1)"
| "patterns Import = Some (import_name, 1)"
| "patterns Unknown = None"

definition first_group :: "(nat \<Rightarrow> string option) \<Rightarrow> nat \<Rightarrow> string option" where
  \<comment> \<open>\<^verbatim>\<open>match.find((group, index) => index > 0 && group)\<close>: an absent or empty group is falsy\<close>
  "first_group m n =
     (case List.find (\<lambda>i. case m i of None \<Rightarrow> False | Some g \<Rightarrow> g \<noteq> []) [1..<Suc n] of
        None \<Rightarrow> None
      | Some i \<Rightarrow> m i)"

definition extractIdentifierName :: "string \<Rightarrow> kind \<Rightarrow> string" where
  "extractIdentifierName context' type =
     (let (pattern, n) = (case patterns type of Some p \<Rightarrow> p | None \<Rightarrow> (first_word, 1))
      in case regex_exec False pattern context' of
           Some m \<Rightarrow> (case first_group m n of Some g \<Rightarrow> g | None \<Rightarrow> ''unknown'')
         | None \<Rightarrow> ''unknown'')"

definition extractIdentifierName_spec :: "string \<Rightarrow> kind \<Rightarrow> string" where
  \<comment> \<open>the extraction as the specification words it: when the pattern of the kind does not
      match, the generic pattern is tried before giving up\<close>
  "extractIdentifierName_spec context' type =
     (let specific =
            (case patterns type of
               None \<Rightarrow> None
             | Some (pattern, n) \<Rightarrow>
                 (case regex_exec False pattern context' of
                    None \<Rightarrow> None
                  | Some m \<Rightarrow> first_group m n))
      in case specific of
           Some g \<Rightarrow> g
         | None \<Rightarrow>
             (case regex_exec False first_word context' of
                None \<Rightarrow> ''unknown''
              | Some m \<Rightarrow> (case first_group m 1 of Some g \<Rightarrow> g | None \<Rightarrow> ''unknown'')))"

definition line_items :: "string list \<Rightarrow> string \<Rightarrow> nat \<Rightarrow> item list" where
  \<comment> \<open>the body of the outer loop of \<^verbatim>\<open>findDeprecatedItems\<close>: the items pushed at line index \<open>i\<close>\<close>
  "line_items lines filePath i =
     (let line = lines ! i; lineNumber = i + 1
      in concat (map (\<lambda>pattern.
           case regex_exec True pattern line of
             None \<Rightarrow> []
           | Some match \<Rightarrow>
               (let deprecationReason =
                      (case match 1 of
                         None \<Rightarrow> ''No reason provided''
                       | Some g \<Rightarrow> if trim g = [] then ''No reason provided'' else trim g);
                    context' = getContextualInfo lines i
                in [\<lparr>item_file = filePath, item_line = lineNumber, item_reason = deprecationReason,
                      item_context = context', item_type = guessItemType context',
                      item_fullMatch = (case match 0 of None \<Rightarrow> [] | Some g \<Rightarrow> g)\<rparr>]))
           DEPRECATED_PATTERNS))"

definition findDeprecatedItems :: "string \<Rightarrow> string \<Rightarrow> item list" where
  "findDeprecatedItems content filePath =
     (let lines = split_lines content
      in concat (map (line_items lines filePath) [0..<length lines]))"

definition category_of :: "kind \<Rightarrow> string" where
  \<comment> \<open>\<^verbatim>\<open>item.type === 'unknown' ? 'functions' : `${item.type}s`\<close>\<close>
  "category_of type = (if type = Unknown then ''functions'' else kind_name type @ ''s'')"

fun push_category :: "string \<Rightarrow> DeprecatedApi \<Rightarrow> registry \<Rightarrow> registry" where
  \<comment> \<open>\<^verbatim>\<open>if (!apis[category]) apis[category] = []; apis[category].push(api)\<close>: a new key goes
      last, as in the insertion order of a JavaScript object\<close>
  "push_category c a [] = [(c, [a])]"
| "push_category c a ((c', xs) # reg) =
     (if c' = c then (c', xs @ [a]) # reg else (c', xs) # push_category c a reg)"

definition categorizeDeprecatedItem :: "registry \<Rightarrow> item \<Rightarrow> registry" where
  "categorizeDeprecatedItem deprecatedApis it =
     (let category = category_of (item_type it);
          name = extractIdentifierName (item_context it) (item_type it)
      in push_category category
           \<lparr>api_name = name, api_reason = item_reason it, api_file = item_file it,
            api_line = item_line it, api_context = item_context it\<rparr>
           deprecatedApis)"

text \<open>
  The file system and the \<^verbatim>\<open>glob\<close> and \<^verbatim>\<open>path\<close> libraries are the environment of the
  extractor.  Reading a file either yields its content or throws.
\<close>

datatype io_error = IoError string

record env =
  existsSync :: "string \<Rightarrow> bool"
  glob_sync :: "string \<Rightarrow> string \<Rightarrow> string list"
  readFileSync :: "string \<Rightarrow> io_error + string"
  path_relative :: "string \<Rightarrow> string \<Rightarrow> string"

definition getRelativePath :: "env \<Rightarrow> string \<Rightarrow> string" where
  "getRelativePath e filePath =
     (case filter (\<lambda>sourcePath. startsWith filePath sourcePath) FRONTEND_SOURCE_PATHS of
        [] \<Rightarrow> filePath
      | sourcePath # _ \<Rightarrow> path_relative e sourcePath filePath)"

definition scanFile_try :: "env \<Rightarrow> registry \<Rightarrow> string \<Rightarrow> io_error + registry" where
  \<comment> \<open>the body of the \<^verbatim>\<open>try\<close> block of \<^verbatim>\<open>scanFile\<close>\<close>
  "scanFile_try e deprecatedApis filePath =
     (case readFileSync e filePath of
        Inl err \<Rightarrow> Inl err
      | Inr content \<Rightarrow>
          (let relativePath = getRelativePath e filePath;
               deprecatedItems = findDeprecatedItems content relativePath
           in Inr (foldl categorizeDeprecatedItem deprecatedApis deprecatedItems)))"

definition scanFile :: "env \<Rightarrow> registry \<Rightarrow> string \<Rightarrow> registry" where
  \<comment> \<open>\<^verbatim>\<open>try { ... } catch (error) { console.error(...) }\<close>; console output is not modelled\<close>
  "scanFile e deprecatedApis filePath =
     (case scanFile_try e deprecatedApis filePath of
        Inl err \<Rightarrow> deprecatedApis
      | Inr deprecatedApis' \<Rightarrow> deprecatedApis')"

definition scanDirectory :: "env \<Rightarrow> registry \<Rightarrow> string \<Rightarrow> registry" where
  "scanDirectory e deprecatedApis dirPath =
     foldl (\<lambda>apis pattern. foldl (scanFile e) apis (glob_sync e dirPath pattern))
       deprecatedApis FILE_PATTERNS"

definition extractor_extract :: "env \<Rightarrow> registry" where
  \<comment> \<open>the method \<^verbatim>\<open>extract\<close> of the class \<^verbatim>\<open>DeprecatedApiExtractor\<close>\<close>
  "extractor_extract e =
     foldl (\<lambda>apis sourcePath. if existsSync e sourcePath then scanDirectory e apis sourcePath else apis)
       initial_registry FRONTEND_SOURCE_PATHS"

definition getTotalCount :: "registry \<Rightarrow> nat" where
  "getTotalCount deprecatedApis = sum_list (map (\<lambda>(category, xs). length xs) deprecatedApis)"

definition count_records :: "(DeprecatedApi \<Rightarrow> bool) \<Rightarrow> registry \<Rightarrow> nat" where
  \<comment> \<open>the number of records of a registry, over all categories, that satisfy \<open>P\<close>\<close>
  "count_records P reg = sum_list (map (\<lambda>(category, xs). length (filter P xs)) reg)"

definition types_empty :: "registry \<Rightarrow> bool" where
  \<comment> \<open>no record is filed under the category \<open>types\<close>\<close>
  "types_empty reg = (\<forall>(c, xs) \<in> set reg. c = ''types'' \<longrightarrow> xs = [])"

definition readable_only :: "env \<Rightarrow> env" where
  \<comment> \<open>the same environment, with the files that cannot be read taken out of every glob result\<close>
  "readable_only e = e\<lparr>glob_sync := \<lambda>d p. filter (\<lambda>f. \<not> isl (readFileSync e f)) (glob_sync e d p)\<rparr>"

section \<open>The matcher (src/rules/no-deprecated-comfyui-apis.ts)\<close>

type_synonym lookup_entry = "DeprecatedApi \<times> string"

definition lookup_add ::
  "(string \<rightharpoonup> lookup_entry list) \<Rightarrow> string \<Rightarrow> DeprecatedApi \<Rightarrow> (string \<rightharpoonup> lookup_entry list)" where
  \<comment> \<open>the body of \<^verbatim>\<open>items.forEach\<close>: the entry \<^verbatim>\<open>{...item, category}\<close> is the pair of both\<close>
  "lookup_add m category item =
     (let key = toLowerCase (api_name item);
          m' = (if m key = None then m(key \<mapsto> []) else m)
      in case m' key of
           None \<Rightarrow> m'
         | Some entries \<Rightarrow> m'(key \<mapsto> entries @ [(item, category)]))"

definition deprecatedLookup :: "registry \<Rightarrow> (string \<rightharpoonup> lookup_entry list)" where
  \<comment> \<open>\<^verbatim>\<open>Object.entries(deprecatedApis.deprecatedApis).forEach(...)\<close> on the loaded registry file\<close>
  "deprecatedLookup apis =
     foldl (\<lambda>m (category, items). foldl (\<lambda>m item. lookup_add m category item) m items)
       Map.empty apis"

definition entries_of :: "registry \<Rightarrow> lookup_entry list" where
  \<comment> \<open>the records of a registry in the order \<^verbatim>\<open>Object.entries\<close> and \<^verbatim>\<open>forEach\<close> visit them\<close>
  "entries_of apis = concat (map (\<lambda>(category, items). map (\<lambda>item. (item, category)) items) apis)"

datatype severity = Error | Warn | Off

record RuleOptions =
  opt_severity :: "severity option"
  opt_ignorePatterns :: "string list option"
  opt_showContext :: "bool option"

datatype message_id = deprecatedApi | deprecatedApiWithContext | deprecatedApiGeneric

record report =
  rep_node :: nat
  rep_messageId :: message_id
  rep_name :: string
  rep_reason :: string
  rep_file :: string
  rep_line :: string

text \<open>
  \<^verbatim>\<open>new RegExp(pattern)\<close> belongs to the JavaScript runtime: it compiles the pattern string or
  throws a syntax error.  It is a parameter \<open>RegExp\<close> of the rule, \<open>None\<close> standing for the
  exception.  The three values destructured from the options by \<^verbatim>\<open>create\<close> are the fields
  of \<open>settings\<close>.
\<close>

record settings =
  severity :: severity
  ignorePatterns :: "string list"
  showContext :: bool

definition destructure :: "RuleOptions \<Rightarrow> settings" where
  \<comment> \<open>\<^verbatim>\<open>const { severity = 'warn', ignorePatterns = [], showContext = true } = options\<close>\<close>
  "destructure options =
     \<lparr>severity = (case opt_severity options of None \<Rightarrow> Warn | Some s \<Rightarrow> s),
      ignorePatterns = (case opt_ignorePatterns options of None \<Rightarrow> [] | Some ps \<Rightarrow> ps),
      showContext = (case opt_showContext options of None \<Rightarrow> True | Some b \<Rightarrow> b)\<rparr>"

definition isIgnored :: "(string \<Rightarrow> regex option) \<Rightarrow> settings \<Rightarrow> string \<Rightarrow> bool" where
  "isIgnored RegExp cfg name =
     list_ex (\<lambda>pattern.
       case RegExp pattern of
         Some regex \<Rightarrow> regex_test False regex name
       | None \<Rightarrow> pattern = name) (ignorePatterns cfg)"

definition reportDeprecated ::
  "(string \<Rightarrow> regex option) \<Rightarrow> settings \<Rightarrow> nat \<Rightarrow> string \<Rightarrow> lookup_entry \<Rightarrow> report list" where
  "reportDeprecated RegExp cfg node name deprecatedInfo =
     (if isIgnored RegExp cfg name then []
      else
        (let info = fst deprecatedInfo;
             reason = (if api_reason info \<noteq> ''No reason provided''
                       then ''Reason: '' @ api_reason info
                       else ''Check ComfyUI documentation for alternatives.'');
             messageId = (if showContext cfg \<and> api_file info \<noteq> []
                          then deprecatedApiWithContext
                          else if api_reason info \<noteq> ''No reason provided''
                          then deprecatedApi
                          else deprecatedApiGeneric)
         in [\<lparr>rep_node = node, rep_messageId = messageId, rep_name = name, rep_reason = reason,
               rep_file = api_file info, rep_line = string_of_nat (api_line info)\<rparr>]))"

definition builtIns :: "string list" where
  "builtIns = [''Set'', ''Map'', ''Array'', ''Object'', ''Promise'', ''Function'', ''String'',
               ''Number'', ''Boolean'']"

definition checkIdentifier ::
  "(string \<Rightarrow> regex option) \<Rightarrow> (string \<rightharpoonup> lookup_entry list) \<Rightarrow> settings \<Rightarrow> nat \<Rightarrow> string
     \<Rightarrow> report list" where
  "checkIdentifier RegExp lookup cfg node name =
     (if name \<in> set builtIns then []
      else
        (case lookup (toLowerCase name) of
           None \<Rightarrow> []
         | Some deprecatedInfo \<Rightarrow>
             (case deprecatedInfo of
                [] \<Rightarrow> []
              | firstItem # _ \<Rightarrow> reportDeprecated RegExp cfg node name firstItem)))"

text \<open>
  The syntax tree is the host's.  The node types the rule's handlers look at are constructors
  of their own, with the fields the handlers read; an identifier carries the place it stands
  at, which is what a report names as its node.  The name of a function or class declaration
  and the names of an import specifier are identifiers by the types of the tree.  Every other
  node type is \<open>OtherNode\<close>.
\<close>

datatype ident = Ident nat string

datatype node =
    Identifier ident
  | MemberExpression node node
  | CallExpression node "node list"
  | NewExpression node "node list"
  | VariableDeclarator node "node list"
  | FunctionDeclaration "ident option" "node list"
  | ClassDeclaration "ident option" "node list"
  | MethodDefinition node "node list"
  | ImportSpecifier ident ident
  | ImportDefaultSpecifier ident
  | ImportNamespaceSpecifier ident
  | TSTypeReference node "node list"
  | OtherNode "node list"

fun check_ident ::
  "(string \<Rightarrow> regex option) \<Rightarrow> (string \<rightharpoonup> lookup_entry list) \<Rightarrow> settings \<Rightarrow> ident \<Rightarrow> report list" where
  "check_ident RegExp lookup cfg (Ident loc name) = checkIdentifier RegExp lookup cfg loc name"

fun check_if_identifier ::
  "(string \<Rightarrow> regex option) \<Rightarrow> (string \<rightharpoonup> lookup_entry list) \<Rightarrow> settings \<Rightarrow> node \<Rightarrow> report list" where
  \<comment> \<open>\<^verbatim>\<open>if (n.type === 'Identifier') checkIdentifier(n, n.name)\<close>\<close>
  "check_if_identifier RegExp lookup cfg (Identifier i) = check_ident RegExp lookup cfg i"
| "check_if_identifier RegExp lookup cfg _ = []"

fun handler ::
  "(string \<Rightarrow> regex option) \<Rightarrow> (string \<rightharpoonup> lookup_entry list) \<Rightarrow> settings \<Rightarrow> node \<Rightarrow> report list" where
  \<comment> \<open>the object returned by \<^verbatim>\<open>create\<close>: one handler for each node type\<close>
  "handler RegExp lookup cfg (CallExpression callee arguments) =
     (case callee of
        Identifier i \<Rightarrow> check_ident RegExp lookup cfg i
      | MemberExpression object property \<Rightarrow> check_if_identifier RegExp lookup cfg property
      | _ \<Rightarrow> [])"
| "handler RegExp lookup cfg (MemberExpression object property) =
     check_if_identifier RegExp lookup cfg property"
| "handler RegExp lookup cfg (VariableDeclarator id' init) = check_if_identifier RegExp lookup cfg id'"
| "handler RegExp lookup cfg (FunctionDeclaration id' body) =
     (case id' of Some i \<Rightarrow> check_ident RegExp lookup cfg i | None \<Rightarrow> [])"
| "handler RegExp lookup cfg (ClassDeclaration id' body) =
     (case id' of Some i \<Rightarrow> check_ident RegExp lookup cfg i | None \<Rightarrow> [])"
| "handler RegExp lookup cfg (MethodDefinition key body) = check_if_identifier RegExp lookup cfg key"
| "handler RegExp lookup cfg (ImportSpecifier imported local) = check_ident RegExp lookup cfg imported"
| "handler RegExp lookup cfg (ImportDefaultSpecifier local) = check_ident RegExp lookup cfg local"
| "handler RegExp lookup cfg (ImportNamespaceSpecifier local) = check_ident RegExp lookup cfg local"
| "handler RegExp lookup cfg (NewExpression callee arguments) =
     check_if_identifier RegExp lookup cfg callee"
| "handler RegExp lookup cfg (TSTypeReference typeName typeArguments) =
     check_if_identifier RegExp lookup cfg typeName"
| "handler RegExp lookup cfg (Identifier i) = []"
| "handler RegExp lookup cfg (OtherNode children) = []"

definition create ::
  "(string \<Rightarrow> regex option) \<Rightarrow> registry \<Rightarrow> RuleOptions \<Rightarrow> node \<Rightarrow> report list" where
  "create RegExp apis options = handler RegExp (deprecatedLookup apis) (destructure options)"

text \<open>The host visits every node of the tree once and calls the handler of its type.\<close>

fun opt_ident :: "ident option \<Rightarrow> node list" where
  "opt_ident None = []"
| "opt_ident (Some i) = [Identifier i]"

fun nodes_of :: "node \<Rightarrow> node list" where
  "nodes_of (Identifier i) = [Identifier i]"
| "nodes_of (MemberExpression object property) =
     MemberExpression object property # nodes_of object @ nodes_of property"
| "nodes_of (CallExpression callee arguments) =
     CallExpression callee arguments # nodes_of callee @ concat (map nodes_of arguments)"
| "nodes_of (NewExpression callee arguments) =
     NewExpression callee arguments # nodes_of callee @ concat (map nodes_of arguments)"
| "nodes_of (VariableDeclarator id' init) =
     VariableDeclarator id' init # nodes_of id' @ concat (map nodes_of init)"
| "nodes_of (FunctionDeclaration id' body) =
     FunctionDeclaration id' body # opt_ident id' @ concat (map nodes_of body)"
| "nodes_of (ClassDeclaration id' body) =
     ClassDeclaration id' body # opt_ident id' @ concat (map nodes_of body)"
| "nodes_of (MethodDefinition key body) =
     MethodDefinition key body # nodes_of key @ concat (map nodes_of body)"
| "nodes_of (ImportSpecifier imported local) =
     [ImportSpecifier imported local, Identifier imported, Identifier local]"
| "nodes_of (ImportDefaultSpecifier local) = [ImportDefaultSpecifier local, Identifier local]"
| "nodes_of (ImportNamespaceSpecifier local) = [ImportNamespaceSpecifier local, Identifier local]"
| "nodes_of (TSTypeReference typeName typeArguments) =
     TSTypeReference typeName typeArguments # nodes_of typeName @ concat (map nodes_of typeArguments)"
| "nodes_of (OtherNode children) = OtherNode children # concat (map nodes_of children)"

definition lint ::
  "(string \<Rightarrow> regex option) \<Rightarrow> registry \<Rightarrow> RuleOptions \<Rightarrow> node \<Rightarrow> report list" where
  "lint RegExp apis options program =
     concat (map (create RegExp apis options) (nodes_of program))"

section \<open>Sample inputs\<close>

definition unknown_item :: item where
  "unknown_item = \<lparr>item_file = ''a.ts'', item_line = 3, item_reason = ''No reason provided'',
     item_context = ''legacy();'', item_type = Unknown, item_fullMatch = ''@deprecated''\<rparr>"

definition sample_root :: string where
  "sample_root = ''/home/c_byrne/projects/comfyui-frontend-testing/ComfyUI_frontend/src''"

definition sample_content :: string where
  "sample_content = ''/** @deprecated use Bar */'' @ [CHR 0x0A] @ ''type Foo = string''"

definition sample_env :: env where
  \<comment> \<open>one source root with two TypeScript files, the second of which cannot be read\<close>
  "sample_env =
     \<lparr>existsSync = (\<lambda>p. p = sample_root),
      glob_sync = (\<lambda>d p. if p = ''**/*.ts'' then [d @ ''/a.ts'', d @ ''/b.ts''] else []),
      readFileSync = (\<lambda>f. if f = sample_root @ ''/a.ts'' then Inr sample_content
                          else Inl (IoError ''EACCES'')),
      path_relative = (\<lambda>from to. drop (Suc (length from)) to)\<rparr>"

definition hit_content :: string where
  \<comment> \<open>a file of five lines whose second line is a line comment annotation\<close>
  "hit_content =
     ''const old = 1'' @ [CHR 0x0A] @ ''// @deprecated x'' @ [CHR 0x0A] @ ''a'' @ [CHR 0x0A] @
     ''b'' @ [CHR 0x0A] @ ''c''"

definition hit_item :: item where
  \<comment> \<open>the item the single-line-comment pattern yields at that annotation\<close>
  "hit_item =
     \<lparr>item_file = ''a.ts'', item_line = 2, item_reason = ''x'',
      item_context = ''const old = 1 a b'', item_type = Constant,
      item_fullMatch = ''// @deprecated x''\<rparr>"

definition side_effect_import :: string where
  \<comment> \<open>the context \<^verbatim>\<open>import "./styles.css"\<close>\<close>
  "side_effect_import = ''import '' @ [CHR 0x22] @ ''./styles.css'' @ [CHR 0x22]"

definition annotated_content :: string where
  "annotated_content = ''// @deprecated use bar'' @ [CHR 0x0A] @ ''function foo() {}''"

definition annotated_env :: env where
  "annotated_env = sample_env\<lparr>readFileSync := \<lambda>f. Inr annotated_content\<rparr>"

definition crlf_line :: string where
  \<comment> \<open>the line \<^verbatim>\<open>// @deprecated old\<close> of a file with CR LF line ends, as \<^verbatim>\<open>split('\n')\<close> leaves it\<close>
  "crlf_line = ''// @deprecated old'' @ [CHR 0x0D]"

definition serialise_api :: DeprecatedApi where
  "serialise_api =
     \<lparr>api_name = ''serialise'', api_reason = ''Use JSON.stringify instead'',
      api_file = ''utils/vintageClipboard.ts'', api_line = 12,
      api_context = ''export function serialise(items) {''\<rparr>"

definition set_api :: DeprecatedApi where
  "set_api =
     \<lparr>api_name = ''set'', api_reason = ''No reason provided'',
      api_file = ''stores/settings.ts'', api_line = 40,
      api_context = ''set(key, value) {''\<rparr>"

definition sample_apis :: registry where
  "sample_apis = [(''functions'', [serialise_api, set_api]), (''types'', [])]"

definition sample_RegExp :: "string \<Rightarrow> regex option" where
  \<comment> \<open>\<^verbatim>\<open>new RegExp\<close> on the patterns of the samples: \<^verbatim>\<open>[\<close> does not compile, a pattern of
      letters compiles to the literal text\<close>
  "sample_RegExp pattern = (if pattern = ''['' then None else Some (Str pattern))"

definition options_off :: RuleOptions where
  "options_off = \<lparr>opt_severity = Some Off, opt_ignorePatterns = None, opt_showContext = None\<rparr>"

definition options_default :: RuleOptions where
  "options_default = \<lparr>opt_severity = None, opt_ignorePatterns = None, opt_showContext = None\<rparr>"

definition options_ignore :: RuleOptions where
  "options_ignore =
     \<lparr>opt_severity = None, opt_ignorePatterns = Some [''['', ''serial''], opt_showContext = None\<rparr>"

definition direct_call :: node where
  \<comment> \<open>\<^verbatim>\<open>serialise(items)\<close>\<close>
  "direct_call = CallExpression (Identifier (Ident 0 ''serialise'')) [Identifier (Ident 1 ''items'')]"

definition method_call :: node where
  \<comment> \<open>\<^verbatim>\<open>clipboard.serialise(items)\<close>\<close>
  "method_call =
     CallExpression
       (MemberExpression (Identifier (Ident 0 ''clipboard'')) (Identifier (Ident 1 ''serialise'')))
       [Identifier (Ident 2 ''items'')]"

section \<open>The matcher of regular expressions against their declarative reading\<close>

text \<open>
  The backtracking matcher succeeds exactly when the declarative reading has a match: first for
  the two quantifier loops, then for every pattern, then for the search over the start
  positions.
\<close>

lemma caps_blind_Some: "caps_blind Some"
  by (simp add: caps_blind_def)

lemma star_greedy_sem:
  assumes m: "\<And>k st. caps_blind k \<Longrightarrow>
     (m k st \<noteq> None) = (\<exists>p' s'. rsem ic r (pos st, rest st) (p', s') \<and> k (st\<lparr>pos := p', rest := s'\<rparr>) \<noteq> None)"
  shows "caps_blind k \<Longrightarrow> length (rest st) \<le> n \<Longrightarrow>
     (star_greedy n m k st \<noteq> None) =
     (\<exists>p' s'. rsem ic (Star r) (pos st, rest st) (p', s') \<and> k (st\<lparr>pos := p', rest := s'\<rparr>) \<noteq> None)"
proof (induction n arbitrary: st)
  case 0
  then have e: "rest st = []" by simp
  have same: "st\<lparr>pos := pos st, rest := rest st\<rparr> = st" by simp
  show ?case
  proof
    assume "star_greedy 0 m k st \<noteq> None"
    then have "k (st\<lparr>pos := pos st, rest := rest st\<rparr>) \<noteq> None" using same by simp
    then show "\<exists>p' s'. rsem ic (Star r) (pos st, rest st) (p', s') \<and> k (st\<lparr>pos := p', rest := s'\<rparr>) \<noteq> None"
      using rsem_Star0[of ic r "(pos st, rest st)"] by blast
  next
    assume "\<exists>p' s'. rsem ic (Star r) (pos st, rest st) (p', s') \<and> k (st\<lparr>pos := p', rest := s'\<rparr>) \<noteq> None"
    then obtain p' s' where r0: "rsem ic (Star r) (pos st, rest st) (p', s')"
      and k0: "k (st\<lparr>pos := p', rest := s'\<rparr>) \<noteq> None" by blast
    from r0 have "p' = pos st \<and> s' = rest st"
      using e by (cases rule: rsem.cases) auto
    then show "star_greedy 0 m k st \<noteq> None" using k0 same by simp
  qed
next
  case (Suc n)
  let ?k' = "\<lambda>st'. if length (rest st') < length (rest st) then star_greedy n m k st' else None"
  have blind: "caps_blind ?k'"
    unfolding caps_blind_def
  proof (intro allI)
    fix st' c
    show "(?k' (st'\<lparr>caps := c\<rparr>) = None) = (?k' st' = None)"
    proof (cases "length (rest st') < length (rest st)")
      case True
      then have le: "length (rest st') \<le> n" using Suc.prems(2) by simp
      have a: "(star_greedy n m k st' \<noteq> None) =
         (\<exists>p' s'. rsem ic (Star r) (pos st', rest st') (p', s') \<and> k (st'\<lparr>pos := p', rest := s'\<rparr>) \<noteq> None)"
        using Suc.IH[OF Suc.prems(1) le] .
      have le': "length (rest (st'\<lparr>caps := c\<rparr>)) \<le> n" using le by simp
      have b: "(star_greedy n m k (st'\<lparr>caps := c\<rparr>) \<noteq> None) =
         (\<exists>p' s'. rsem ic (Star r) (pos st', rest st') (p', s') \<and> k (st'\<lparr>caps := c, pos := p', rest := s'\<rparr>) \<noteq> None)"
        using Suc.IH[OF Suc.prems(1) le'] by simp
      have c: "(k (st'\<lparr>caps := c, pos := p', rest := s'\<rparr>) = None) = (k (st'\<lparr>pos := p', rest := s'\<rparr>) = None)"
        for p' s'
      proof -
        have "st'\<lparr>caps := c, pos := p', rest := s'\<rparr> = (st'\<lparr>pos := p', rest := s'\<rparr>)\<lparr>caps := c\<rparr>" by simp
        then show ?thesis
          using Suc.prems(1) unfolding caps_blind_def by metis
      qed
      have "(star_greedy n m k (st'\<lparr>caps := c\<rparr>) \<noteq> None) = (star_greedy n m k st' \<noteq> None)"
        unfolding a b c ..
      then have "(star_greedy n m k (st'\<lparr>caps := c\<rparr>) = None) = (star_greedy n m k st' = None)"
        by blast
      then show ?thesis using True by simp
    next
      case False
      then show ?thesis by simp
    qed
  qed
  have step: "(m ?k' st \<noteq> None) =
     (\<exists>p' s'. rsem ic r (pos st, rest st) (p', s') \<and> ?k' (st\<lparr>pos := p', rest := s'\<rparr>) \<noteq> None)"
    using m[OF blind] .
  have inner: "(star_greedy n m k (st\<lparr>pos := p', rest := s'\<rparr>) \<noteq> None) =
     (\<exists>p'' s''. rsem ic (Star r) (p', s') (p'', s'') \<and> k (st\<lparr>pos := p'', rest := s''\<rparr>) \<noteq> None)"
    if l: "length s' < length (rest st)" for p' s'
  proof -
    have "length (rest (st\<lparr>pos := p', rest := s'\<rparr>)) \<le> n" using l Suc.prems(2) by simp
    from Suc.IH[OF Suc.prems(1) this] show ?thesis by simp
  qed
  have lhs: "(star_greedy (Suc n) m k st \<noteq> None) = (m ?k' st \<noteq> None \<or> k st \<noteq> None)"
    by (simp split: option.splits)
  have same: "st\<lparr>pos := pos st, rest := rest st\<rparr> = st" by simp
  show ?case
  proof
    assume "star_greedy (Suc n) m k st \<noteq> None"
    then consider "m ?k' st \<noteq> None" | "k st \<noteq> None" using lhs by blast
    then show "\<exists>p' s'. rsem ic (Star r) (pos st, rest st) (p', s') \<and> k (st\<lparr>pos := p', rest := s'\<rparr>) \<noteq> None"
    proof cases
      case 1
      then obtain p' s' where r1: "rsem ic r (pos st, rest st) (p', s')"
        and k1: "?k' (st\<lparr>pos := p', rest := s'\<rparr>) \<noteq> None" using step by blast
      from k1 have l: "length s' < length (rest st)" by (simp split: if_splits)
      with k1 have "star_greedy n m k (st\<lparr>pos := p', rest := s'\<rparr>) \<noteq> None" by simp
      then obtain p'' s'' where r2: "rsem ic (Star r) (p', s') (p'', s'')"
        and k2: "k (st\<lparr>pos := p'', rest := s''\<rparr>) \<noteq> None" using inner[OF l] by blast
      have "rsem ic (Star r) (pos st, rest st) (p'', s'')"
        using rsem_StarS[OF r1 _ r2] l by simp
      then show ?thesis using k2 by blast
    next
      case 2
      then show ?thesis using rsem_Star0[of ic r "(pos st, rest st)"] same by metis
    qed
  next
    assume "\<exists>p' s'. rsem ic (Star r) (pos st, rest st) (p', s') \<and> k (st\<lparr>pos := p', rest := s'\<rparr>) \<noteq> None"
    then obtain p' s' where r0: "rsem ic (Star r) (pos st, rest st) (p', s')"
      and k0: "k (st\<lparr>pos := p', rest := s'\<rparr>) \<noteq> None" by blast
    from r0 show "star_greedy (Suc n) m k st \<noteq> None"
    proof (cases rule: rsem.cases)
      case (rsem_Star0)
      then show ?thesis using k0 lhs same by simp
    next
      case (rsem_StarS y)
      obtain q t where y: "y = (q, t)" by (cases y)
      from rsem_StarS y have l: "length t < length (rest st)" by simp
      have "star_greedy n m k (st\<lparr>pos := q, rest := t\<rparr>) \<noteq> None"
        using inner[OF l] rsem_StarS y k0 by blast
      then have "?k' (st\<lparr>pos := q, rest := t\<rparr>) \<noteq> None" using l by simp
      then have "m ?k' st \<noteq> None" using step rsem_StarS y by blast
      then show ?thesis using lhs by blast
    qed
  qed
qed

lemma star_lazy_sem:
  assumes m: "\<And>k st. caps_blind k \<Longrightarrow>
     (m k st \<noteq> None) = (\<exists>p' s'. rsem ic r (pos st, rest st) (p', s') \<and> k (st\<lparr>pos := p', rest := s'\<rparr>) \<noteq> None)"
  shows "caps_blind k \<Longrightarrow> length (rest st) \<le> n \<Longrightarrow>
     (star_lazy n m k st \<noteq> None) =
     (\<exists>p' s'. rsem ic (StarLazy r) (pos st, rest st) (p', s') \<and> k (st\<lparr>pos := p', rest := s'\<rparr>) \<noteq> None)"
proof (induction n arbitrary: st)
  case 0
  then have e: "rest st = []" by simp
  have same: "st\<lparr>pos := pos st, rest := rest st\<rparr> = st" by simp
  show ?case
  proof
    assume "star_lazy 0 m k st \<noteq> None"
    then have "k (st\<lparr>pos := pos st, rest := rest st\<rparr>) \<noteq> None" using same by simp
    then show "\<exists>p' s'. rsem ic (StarLazy r) (pos st, rest st) (p', s') \<and> k (st\<lparr>pos := p', rest := s'\<rparr>) \<noteq> None"
      using rsem_StarLazy0[of ic r "(pos st, rest st)"] by blast
  next
    assume "\<exists>p' s'. rsem ic (StarLazy r) (pos st, rest st) (p', s') \<and> k (st\<lparr>pos := p', rest := s'\<rparr>) \<noteq> None"
    then obtain p' s' where r0: "rsem ic (StarLazy r) (pos st, rest st) (p', s')"
      and k0: "k (st\<lparr>pos := p', rest := s'\<rparr>) \<noteq> None" by blast
    from r0 have "p' = pos st \<and> s' = rest st"
      using e by (cases rule: rsem.cases) auto
    then show "star_lazy 0 m k st \<noteq> None" using k0 same by simp
  qed
next
  case (Suc n)
  let ?k' = "\<lambda>st'. if length (rest st') < length (rest st) then star_lazy n m k st' else None"
  have blind: "caps_blind ?k'"
    unfolding caps_blind_def
  proof (intro allI)
    fix st' c
    show "(?k' (st'\<lparr>caps := c\<rparr>) = None) = (?k' st' = None)"
    proof (cases "length (rest st') < length (rest st)")
      case True
      then have le: "length (rest st') \<le> n" using Suc.prems(2) by simp
      have a: "(star_lazy n m k st' \<noteq> None) =
         (\<exists>p' s'. rsem ic (StarLazy r) (pos st', rest st') (p', s') \<and> k (st'\<lparr>pos := p', rest := s'\<rparr>) \<noteq> None)"
        using Suc.IH[OF Suc.prems(1) le] .
      have le': "length (rest (st'\<lparr>caps := c\<rparr>)) \<le> n" using le by simp
      have b: "(star_lazy n m k (st'\<lparr>caps := c\<rparr>) \<noteq> None) =
         (\<exists>p' s'. rsem ic (StarLazy r) (pos st', rest st') (p', s') \<and> k (st'\<lparr>caps := c, pos := p', rest := s'\<rparr>) \<noteq> None)"
        using Suc.IH[OF Suc.prems(1) le'] by simp
      have c: "(k (st'\<lparr>caps := c, pos := p', rest := s'\<rparr>) = None) = (k (st'\<lparr>pos := p', rest := s'\<rparr>) = None)"
        for p' s'
      proof -
        have "st'\<lparr>caps := c, pos := p', rest := s'\<rparr> = (st'\<lparr>pos := p', rest := s'\<rparr>)\<lparr>caps := c\<rparr>" by simp
        then show ?thesis
          using Suc.prems(1) unfolding caps_blind_def by metis
      qed
      have "(star_lazy n m k (st'\<lparr>caps := c\<rparr>) \<noteq> None) = (star_lazy n m k st' \<noteq> None)"
        unfolding a b c ..
      then have "(star_lazy n m k (st'\<lparr>caps := c\<rparr>) = None) = (star_lazy n m k st' = None)"
        by blast
      then show ?thesis using True by simp
    next
      case False
      then show ?thesis by simp
    qed
  qed
  have step: "(m ?k' st \<noteq> None) =
     (\<exists>p' s'. rsem ic r (pos st, rest st) (p', s') \<and> ?k' (st\<lparr>pos := p', rest := s'\<rparr>) \<noteq> None)"
    using m[OF blind] .
  have inner: "(star_lazy n m k (st\<lparr>pos := p', rest := s'\<rparr>) \<noteq> None) =
     (\<exists>p'' s''. rsem ic (StarLazy r) (p', s') (p'', s'') \<and> k (st\<lparr>pos := p'', rest := s''\<rparr>) \<noteq> None)"
    if l: "length s' < length (rest st)" for p' s'
  proof -
    have "length (rest (st\<lparr>pos := p', rest := s'\<rparr>)) \<le> n" using l Suc.prems(2) by simp
    from Suc.IH[OF Suc.prems(1) this] show ?thesis by simp
  qed
  have lhs: "(star_lazy (Suc n) m k st \<noteq> None) = (m ?k' st \<noteq> None \<or> k st \<noteq> None)"
    by (auto split: option.splits)
  have same: "st\<lparr>pos := pos st, rest := rest st\<rparr> = st" by simp
  show ?case
  proof
    assume "star_lazy (Suc n) m k st \<noteq> None"
    then consider "m ?k' st \<noteq> None" | "k st \<noteq> None" using lhs by blast
    then show "\<exists>p' s'. rsem ic (StarLazy r) (pos st, rest st) (p', s') \<and> k (st\<lparr>pos := p', rest := s'\<rparr>) \<noteq> None"
    proof cases
      case 1
      then obtain p' s' where r1: "rsem ic r (pos st, rest st) (p', s')"
        and k1: "?k' (st\<lparr>pos := p', rest := s'\<rparr>) \<noteq> None" using step by blast
      from k1 have l: "length s' < length (rest st)" by (simp split: if_splits)
      with k1 have "star_lazy n m k (st\<lparr>pos := p', rest := s'\<rparr>) \<noteq> None" by simp
      then obtain p'' s'' where r2: "rsem ic (StarLazy r) (p', s') (p'', s'')"
        and k2: "k (st\<lparr>pos := p'', rest := s''\<rparr>) \<noteq> None" using inner[OF l] by blast
      have "rsem ic (StarLazy r) (pos st, rest st) (p'', s'')"
        using rsem_StarLazyS[OF r1 _ r2] l by simp
      then show ?thesis using k2 by blast
    next
      case 2
      then show ?thesis using rsem_StarLazy0[of ic r "(pos st, rest st)"] same by metis
    qed
  next
    assume "\<exists>p' s'. rsem ic (StarLazy r) (pos st, rest st) (p', s') \<and> k (st\<lparr>pos := p', rest := s'\<rparr>) \<noteq> None"
    then obtain p' s' where r0: "rsem ic (StarLazy r) (pos st, rest st) (p', s')"
      and k0: "k (st\<lparr>pos := p', rest := s'\<rparr>) \<noteq> None" by blast
    from r0 show "star_lazy (Suc n) m k st \<noteq> None"
    proof (cases rule: rsem.cases)
      case (rsem_StarLazy0)
      then show ?thesis using k0 lhs same by simp
    next
      case (rsem_StarLazyS y)
      obtain q t where y: "y = (q, t)" by (cases y)
      from rsem_StarLazyS y have l: "length t < length (rest st)" by simp
      have "star_lazy n m k (st\<lparr>pos := q, rest := t\<rparr>) \<noteq> None"
        using inner[OF l] rsem_StarLazyS y k0 by blast
      then have "?k' (st\<lparr>pos := q, rest := t\<rparr>) \<noteq> None" using l by simp
      then have "m ?k' st \<noteq> None" using step rsem_StarLazyS y by blast
      then show ?thesis using lhs by blast
    qed
  qed
qed


lemma rmatch_sem:
  "caps_blind k \<Longrightarrow>
     (rmatch ic r k st \<noteq> None) =
     (\<exists>p' s'. rsem ic r (pos st, rest st) (p', s') \<and> k (st\<lparr>pos := p', rest := s'\<rparr>) \<noteq> None)"
proof (induction r arbitrary: k st)
  case (Atom a)
  show ?case
  proof (cases "rest st")
    case Nil
    then show ?thesis by (auto elim: rsem.cases)
  next
    case (Cons c cs)
    then show ?thesis
      by (auto elim: rsem.cases intro: rsem_Atom)
  qed
next
  case Eps
  have same: "st\<lparr>pos := pos st, rest := rest st\<rparr> = st" by simp
  show ?case
  proof
    assume "rmatch ic Eps k st \<noteq> None"
    then have "k (st\<lparr>pos := pos st, rest := rest st\<rparr>) \<noteq> None" using same by simp
    then show "\<exists>p' s'. rsem ic Eps (pos st, rest st) (p', s') \<and> k (st\<lparr>pos := p', rest := s'\<rparr>) \<noteq> None"
      using rsem_Eps[of ic "(pos st, rest st)"] by blast
  next
    assume "\<exists>p' s'. rsem ic Eps (pos st, rest st) (p', s') \<and> k (st\<lparr>pos := p', rest := s'\<rparr>) \<noteq> None"
    then obtain p' s' where r0: "rsem ic Eps (pos st, rest st) (p', s')"
      and k0: "k (st\<lparr>pos := p', rest := s'\<rparr>) \<noteq> None" by blast
    from r0 have "p' = pos st \<and> s' = rest st" by (cases rule: rsem.cases) auto
    then show "rmatch ic Eps k st \<noteq> None" using k0 same by simp
  qed
next
  case (Seq r1 r2)
  have blind: "caps_blind (rmatch ic r2 k)"
    unfolding caps_blind_def
  proof (intro allI)
    fix st' c
    have c: "(k (st'\<lparr>caps := c, pos := p', rest := s'\<rparr>) = None) = (k (st'\<lparr>pos := p', rest := s'\<rparr>) = None)"
      for p' s'
    proof -
      have "st'\<lparr>caps := c, pos := p', rest := s'\<rparr> = (st'\<lparr>pos := p', rest := s'\<rparr>)\<lparr>caps := c\<rparr>" by simp
      then show ?thesis using Seq.prems unfolding caps_blind_def by metis
    qed
    have a: "(rmatch ic r2 k st' \<noteq> None) =
      (\<exists>p' s'. rsem ic r2 (pos st', rest st') (p', s') \<and> k (st'\<lparr>pos := p', rest := s'\<rparr>) \<noteq> None)"
      using Seq.IH(2)[OF Seq.prems] .
    have b: "(rmatch ic r2 k (st'\<lparr>caps := c\<rparr>) \<noteq> None) =
      (\<exists>p' s'. rsem ic r2 (pos st', rest st') (p', s') \<and> k (st'\<lparr>caps := c, pos := p', rest := s'\<rparr>) \<noteq> None)"
      using Seq.IH(2)[OF Seq.prems, of "st'\<lparr>caps := c\<rparr>"] by simp
    have "(rmatch ic r2 k (st'\<lparr>caps := c\<rparr>) \<noteq> None) = (rmatch ic r2 k st' \<noteq> None)"
      unfolding a b c ..
    then show "(rmatch ic r2 k (st'\<lparr>caps := c\<rparr>) = None) = (rmatch ic r2 k st' = None)" by blast
  qed
  have "(rmatch ic (Seq r1 r2) k st \<noteq> None) =
     (\<exists>p' s'. rsem ic r1 (pos st, rest st) (p', s') \<and> rmatch ic r2 k (st\<lparr>pos := p', rest := s'\<rparr>) \<noteq> None)"
    using Seq.IH(1)[OF blind] by simp
  also have "\<dots> = (\<exists>p' s'. rsem ic r1 (pos st, rest st) (p', s') \<and>
      (\<exists>p'' s''. rsem ic r2 (p', s') (p'', s'') \<and> k (st\<lparr>pos := p'', rest := s''\<rparr>) \<noteq> None))"
    using Seq.IH(2)[OF Seq.prems] by simp
  also have "\<dots> = (\<exists>p'' s''. rsem ic (Seq r1 r2) (pos st, rest st) (p'', s'') \<and> k (st\<lparr>pos := p'', rest := s''\<rparr>) \<noteq> None)"
  proof
    assume "\<exists>p' s'. rsem ic r1 (pos st, rest st) (p', s') \<and>
      (\<exists>p'' s''. rsem ic r2 (p', s') (p'', s'') \<and> k (st\<lparr>pos := p'', rest := s''\<rparr>) \<noteq> None)"
    then show "\<exists>p'' s''. rsem ic (Seq r1 r2) (pos st, rest st) (p'', s'') \<and> k (st\<lparr>pos := p'', rest := s''\<rparr>) \<noteq> None"
      by (blast intro: rsem_Seq)
  next
    assume "\<exists>p'' s''. rsem ic (Seq r1 r2) (pos st, rest st) (p'', s'') \<and> k (st\<lparr>pos := p'', rest := s''\<rparr>) \<noteq> None"
    then obtain p'' s'' where r0: "rsem ic (Seq r1 r2) (pos st, rest st) (p'', s'')"
      and k0: "k (st\<lparr>pos := p'', rest := s''\<rparr>) \<noteq> None" by blast
    from r0 obtain y where "rsem ic r1 (pos st, rest st) y" "rsem ic r2 y (p'', s'')"
      by (cases rule: rsem.cases) auto
    then show "\<exists>p' s'. rsem ic r1 (pos st, rest st) (p', s') \<and>
      (\<exists>p'' s''. rsem ic r2 (p', s') (p'', s'') \<and> k (st\<lparr>pos := p'', rest := s''\<rparr>) \<noteq> None)"
      using k0 by (cases y) blast
  qed
  finally show ?case .
next
  case (Alt r1 r2)
  have "(rmatch ic (Alt r1 r2) k st \<noteq> None) = (rmatch ic r1 k st \<noteq> None \<or> rmatch ic r2 k st \<noteq> None)"
    by (auto split: option.splits)
  also have "\<dots> = ((\<exists>p' s'. rsem ic r1 (pos st, rest st) (p', s') \<and> k (st\<lparr>pos := p', rest := s'\<rparr>) \<noteq> None) \<or>
      (\<exists>p' s'. rsem ic r2 (pos st, rest st) (p', s') \<and> k (st\<lparr>pos := p', rest := s'\<rparr>) \<noteq> None))"
    unfolding Alt.IH(1)[OF Alt.prems] Alt.IH(2)[OF Alt.prems] ..
  also have "\<dots> = (\<exists>p' s'. rsem ic (Alt r1 r2) (pos st, rest st) (p', s') \<and> k (st\<lparr>pos := p', rest := s'\<rparr>) \<noteq> None)"
  proof
    assume "(\<exists>p' s'. rsem ic r1 (pos st, rest st) (p', s') \<and> k (st\<lparr>pos := p', rest := s'\<rparr>) \<noteq> None) \<or>
      (\<exists>p' s'. rsem ic r2 (pos st, rest st) (p', s') \<and> k (st\<lparr>pos := p', rest := s'\<rparr>) \<noteq> None)"
    then show "\<exists>p' s'. rsem ic (Alt r1 r2) (pos st, rest st) (p', s') \<and> k (st\<lparr>pos := p', rest := s'\<rparr>) \<noteq> None"
      by (blast intro: rsem_Alt1 rsem_Alt2)
  next
    assume "\<exists>p' s'. rsem ic (Alt r1 r2) (pos st, rest st) (p', s') \<and> k (st\<lparr>pos := p', rest := s'\<rparr>) \<noteq> None"
    then obtain p' s' where r0: "rsem ic (Alt r1 r2) (pos st, rest st) (p', s')"
      and k0: "k (st\<lparr>pos := p', rest := s'\<rparr>) \<noteq> None" by blast
    from r0 have "rsem ic r1 (pos st, rest st) (p', s') \<or> rsem ic r2 (pos st, rest st) (p', s')"
      by (cases rule: rsem.cases) auto
    then show "(\<exists>p' s'. rsem ic r1 (pos st, rest st) (p', s') \<and> k (st\<lparr>pos := p', rest := s'\<rparr>) \<noteq> None) \<or>
      (\<exists>p' s'. rsem ic r2 (pos st, rest st) (p', s') \<and> k (st\<lparr>pos := p', rest := s'\<rparr>) \<noteq> None)"
      using k0 by blast
  qed
  finally show ?case .
next
  case (Star r)
  have "(star_greedy (length (rest st)) (rmatch ic r) k st \<noteq> None) =
     (\<exists>p' s'. rsem ic (Star r) (pos st, rest st) (p', s') \<and> k (st\<lparr>pos := p', rest := s'\<rparr>) \<noteq> None)"
    by (rule star_greedy_sem[where r = r and ic = ic, OF Star.IH Star.prems]) simp_all
  then show ?case by simp
next
  case (StarLazy r)
  have "(star_lazy (length (rest st)) (rmatch ic r) k st \<noteq> None) =
     (\<exists>p' s'. rsem ic (StarLazy r) (pos st, rest st) (p', s') \<and> k (st\<lparr>pos := p', rest := s'\<rparr>) \<noteq> None)"
    by (rule star_lazy_sem[where r = r and ic = ic, OF StarLazy.IH StarLazy.prems]) simp_all
  then show ?case by simp
next
  case (Group i r)
  let ?k' = "\<lambda>st'. k (st'\<lparr>caps := (caps st')(i \<mapsto> take (pos st' - pos st) (rest st))\<rparr>)"
  have kb: "(k (x\<lparr>caps := c\<rparr>) = None) = (k x = None)" for x c
    using Group.prems unfolding caps_blind_def by blast
  have blind: "caps_blind ?k'"
    unfolding caps_blind_def by (simp add: kb)
  have "(rmatch ic (Group i r) k st \<noteq> None) =
     (\<exists>p' s'. rsem ic r (pos st, rest st) (p', s') \<and> ?k' (st\<lparr>pos := p', rest := s'\<rparr>) \<noteq> None)"
    using Group.IH[OF blind] by simp
  also have "\<dots> = (\<exists>p' s'. rsem ic r (pos st, rest st) (p', s') \<and> k (st\<lparr>pos := p', rest := s'\<rparr>) \<noteq> None)"
    by (simp add: kb)
  also have "\<dots> = (\<exists>p' s'. rsem ic (Group i r) (pos st, rest st) (p', s') \<and> k (st\<lparr>pos := p', rest := s'\<rparr>) \<noteq> None)"
  proof -
    have "rsem ic (Group i r) x y = rsem ic r x y" for x y
      by (auto elim: rsem.cases intro: rsem_Group)
    then show ?thesis by simp
  qed
  finally show ?case .
next
  case Bol
  have same: "st\<lparr>pos := pos st, rest := rest st\<rparr> = st" by simp
  show ?case
  proof
    assume a: "rmatch ic Bol k st \<noteq> None"
    then have z: "pos st = 0" by (simp split: if_splits)
    with a have "k st \<noteq> None" by simp
    then have "k (st\<lparr>pos := pos st, rest := rest st\<rparr>) \<noteq> None" unfolding same .
    moreover have "rsem ic Bol (pos st, rest st) (pos st, rest st)" using z rsem_Bol[of ic "rest st"] by simp
    ultimately show "\<exists>p' s'. rsem ic Bol (pos st, rest st) (p', s') \<and> k (st\<lparr>pos := p', rest := s'\<rparr>) \<noteq> None"
      by blast
  next
    assume "\<exists>p' s'. rsem ic Bol (pos st, rest st) (p', s') \<and> k (st\<lparr>pos := p', rest := s'\<rparr>) \<noteq> None"
    then obtain p' s' where r0: "rsem ic Bol (pos st, rest st) (p', s')"
      and k0: "k (st\<lparr>pos := p', rest := s'\<rparr>) \<noteq> None" by blast
    from r0 have e: "pos st = 0" "p' = pos st" "s' = rest st" by (cases rule: rsem.cases; simp)+
    from k0 have "k st \<noteq> None" unfolding e(2,3) same .
    then show "rmatch ic Bol k st \<noteq> None" using e(1) by simp
  qed
next
  case Eol
  have same: "st\<lparr>pos := pos st, rest := rest st\<rparr> = st" by simp
  show ?case
  proof
    assume a: "rmatch ic Eol k st \<noteq> None"
    then have z: "rest st = []" by (simp split: if_splits)
    with a have "k st \<noteq> None" by simp
    then have "k (st\<lparr>pos := pos st, rest := rest st\<rparr>) \<noteq> None" unfolding same .
    moreover have "rsem ic Eol (pos st, rest st) (pos st, rest st)" using z rsem_Eol[of ic "pos st"] by simp
    ultimately show "\<exists>p' s'. rsem ic Eol (pos st, rest st) (p', s') \<and> k (st\<lparr>pos := p', rest := s'\<rparr>) \<noteq> None"
      by blast
  next
    assume "\<exists>p' s'. rsem ic Eol (pos st, rest st) (p', s') \<and> k (st\<lparr>pos := p', rest := s'\<rparr>) \<noteq> None"
    then obtain p' s' where r0: "rsem ic Eol (pos st, rest st) (p', s')"
      and k0: "k (st\<lparr>pos := p', rest := s'\<rparr>) \<noteq> None" by blast
    from r0 have e: "rest st = []" "p' = pos st" "s' = rest st" by (cases rule: rsem.cases; simp)+
    from k0 have "k st \<noteq> None" unfolding e(2,3) same .
    then show "rmatch ic Eol k st \<noteq> None" using e(1) by simp
  qed
qed

lemma search_sem:
  "(search ic r p s \<noteq> None) =
     (\<exists>i\<le>length s. \<exists>p' s'. rsem ic r (p + i, drop i s) (p', s'))"
proof (induction s arbitrary: p)
  case Nil
  show ?case
    using rmatch_sem[OF caps_blind_Some, of ic r "\<lparr>pos = p, rest = [], caps = Map.empty\<rparr>"]
    by simp
next
  case (Cons c cs)
  have here: "(rmatch ic r Some \<lparr>pos = p, rest = c # cs, caps = Map.empty\<rparr> \<noteq> None) =
     (\<exists>p' s'. rsem ic r (p, c # cs) (p', s'))"
    using rmatch_sem[OF caps_blind_Some, of ic r "\<lparr>pos = p, rest = c # cs, caps = Map.empty\<rparr>"]
    by simp
  have "(search ic r p (c # cs) \<noteq> None) =
     (rmatch ic r Some \<lparr>pos = p, rest = c # cs, caps = Map.empty\<rparr> \<noteq> None \<or> search ic r (Suc p) cs \<noteq> None)"
    by (auto split: option.splits)
  also have "\<dots> = ((\<exists>p' s'. rsem ic r (p, c # cs) (p', s')) \<or>
     (\<exists>i\<le>length cs. \<exists>p' s'. rsem ic r (Suc p + i, drop i cs) (p', s')))"
    unfolding here Cons.IH ..
  also have "\<dots> = (\<exists>i\<le>length (c # cs). \<exists>p' s'. rsem ic r (p + i, drop i (c # cs)) (p', s'))"
  proof
    assume "(\<exists>p' s'. rsem ic r (p, c # cs) (p', s')) \<or>
     (\<exists>i\<le>length cs. \<exists>p' s'. rsem ic r (Suc p + i, drop i cs) (p', s'))"
    then show "\<exists>i\<le>length (c # cs). \<exists>p' s'. rsem ic r (p + i, drop i (c # cs)) (p', s')"
    proof
      assume "\<exists>p' s'. rsem ic r (p, c # cs) (p', s')"
      then have "\<exists>p' s'. rsem ic r (p + 0, drop 0 (c # cs)) (p', s')" by simp
      then show ?thesis by blast
    next
      assume "\<exists>i\<le>length cs. \<exists>p' s'. rsem ic r (Suc p + i, drop i cs) (p', s')"
      then obtain i p' s' where "i \<le> length cs" "rsem ic r (Suc p + i, drop i cs) (p', s')" by blast
      then have "Suc i \<le> length (c # cs)" "rsem ic r (p + Suc i, drop (Suc i) (c # cs)) (p', s')" by simp_all
      then show ?thesis by blast
    qed
  next
    assume "\<exists>i\<le>length (c # cs). \<exists>p' s'. rsem ic r (p + i, drop i (c # cs)) (p', s')"
    then obtain i p' s' where i: "i \<le> length (c # cs)" and r0: "rsem ic r (p + i, drop i (c # cs)) (p', s')" by blast
    show "(\<exists>p' s'. rsem ic r (p, c # cs) (p', s')) \<or>
     (\<exists>i\<le>length cs. \<exists>p' s'. rsem ic r (Suc p + i, drop i cs) (p', s'))"
    proof (cases i)
      case 0
      then show ?thesis using r0 by auto
    next
      case (Suc j)
      then have "j \<le> length cs" "rsem ic r (Suc p + j, drop j cs) (p', s')" using i r0 by simp_all
      then show ?thesis by blast
    qed
  qed
  finally show ?case .
qed

lemma rsem_Group_iff: "rsem ic (Group i r) x y = rsem ic r x y"
  by (auto elim: rsem.cases intro: rsem_Group)

lemma regex_test_sem:
  "regex_test ic r s = (\<exists>i\<le>length s. \<exists>p' s'. rsem ic r (i, drop i s) (p', s'))"
  using search_sem[of ic "Group 0 r" 0 s]
  by (simp add: regex_test_def regex_exec_def rsem_Group_iff)

section \<open>The registry builder\<close>

lemma map_of_push_category:
  "map_of (push_category c a reg) =
     (map_of reg)(c \<mapsto> (case map_of reg c of None \<Rightarrow> [] | Some xs \<Rightarrow> xs) @ [a])"
  by (induction reg) (auto simp: fun_eq_iff)

text \<open>
  C7.  The category key of an item is its kind followed by \<open>s\<close> (so \<open>class\<close> gives
  \<open>classs\<close> and \<open>property\<close> gives \<open>propertys\<close>), except that the kind \<open>unknown\<close> is filed
  under \<open>functions\<close>; the record built from the item is appended to the list under that key,
  and every other category is left as it was.
\<close>

theorem category_key:
  "category_of Unknown = ''functions''
   \<and> (\<forall>k. k \<noteq> Unknown \<longrightarrow> category_of k = kind_name k @ ''s'')
   \<and> category_of Function = ''functions'' \<and> category_of Class = ''classs''
   \<and> category_of Property = ''propertys''
   \<and> map_of (categorizeDeprecatedItem reg it) =
       (map_of reg)(category_of (item_type it) \<mapsto>
          (case map_of reg (category_of (item_type it)) of None \<Rightarrow> [] | Some xs \<Rightarrow> xs) @
          [\<lparr>api_name = extractIdentifierName (item_context it) (item_type it),
            api_reason = item_reason it, api_file = item_file it, api_line = item_line it,
            api_context = item_context it\<rparr>])"
  by (simp add: category_of_def categorizeDeprecatedItem_def map_of_push_category)

theorem category_key_witness:
  "Class \<noteq> Unknown \<and> category_of Class = kind_name Class @ ''s''
   \<and> map_of (categorizeDeprecatedItem initial_registry unknown_item) ''functions'' =
       Some [\<lparr>api_name = ''legacy'', api_reason = ''No reason provided'', api_file = ''a.ts'',
              api_line = 3, api_context = ''legacy();''\<rparr>]"
proof -
  have n: "extractIdentifierName ''legacy();'' Unknown = ''legacy''"
    by (simp add: extractIdentifierName_def first_word_def regex_exec_def Plus_def word_def
        is_word_def first_group_def)
  from category_key[of initial_registry unknown_item] show ?thesis
    by (simp add: unknown_item_def initial_registry_def category_of_def n)
qed

section \<open>The kind classifier\<close>

lemma rsem_Seq_iff: "rsem ic (Seq r1 r2) x z = (\<exists>y. rsem ic r1 x y \<and> rsem ic r2 y z)"
proof
  assume "rsem ic (Seq r1 r2) x z"
  then show "\<exists>y. rsem ic r1 x y \<and> rsem ic r2 y z"
    by (cases rule: rsem.cases) auto
next
  assume "\<exists>y. rsem ic r1 x y \<and> rsem ic r2 y z"
  then show "rsem ic (Seq r1 r2) x z"
    by (blast intro: rsem_Seq)
qed

lemma rsem_Alt_iff: "rsem ic (Alt r1 r2) x y = (rsem ic r1 x y \<or> rsem ic r2 x y)"
proof
  assume "rsem ic (Alt r1 r2) x y"
  then show "rsem ic r1 x y \<or> rsem ic r2 x y"
    by (cases rule: rsem.cases) auto
next
  assume "rsem ic r1 x y \<or> rsem ic r2 x y"
  then show "rsem ic (Alt r1 r2) x y"
    by (blast intro: rsem_Alt1 rsem_Alt2)
qed

lemma type_alias_is_class_like:
  "rsem False type_alias_like x z \<Longrightarrow> rsem False class_like x z"
  unfolding type_alias_like_def class_like_def seqs.simps alts.simps rsem_Seq_iff rsem_Alt_iff
    rsem_Group_iff
  by blast

lemma type_alias_test: "regex_test False type_alias_like c \<Longrightarrow> regex_test False class_like c"
  unfolding regex_test_sem by (blast intro: type_alias_is_class_like)

lemma guessItemType_not_Type: "guessItemType c \<noteq> Type"
  using type_alias_test[of c] by (auto simp: guessItemType_def)

lemma category_of_types: "(category_of k = ''types'') = (k = Type)"
  by (cases k) (simp_all add: category_of_def)

lemma set_push_category:
  "c' \<noteq> c \<Longrightarrow> (c', xs) \<in> set (push_category c a reg) \<Longrightarrow> (c', xs) \<in> set reg"
  by (induction reg) (auto split: if_splits)

lemma types_empty_push:
  "c \<noteq> ''types'' \<Longrightarrow> types_empty reg \<Longrightarrow> types_empty (push_category c a reg)"
  unfolding types_empty_def using set_push_category[of _ c _ a reg] by fastforce

lemma types_empty_categorize:
  "item_type it \<noteq> Type \<Longrightarrow> types_empty reg \<Longrightarrow> types_empty (categorizeDeprecatedItem reg it)"
  by (simp add: categorizeDeprecatedItem_def Let_def types_empty_push category_of_types)

lemma line_items_type: "it \<in> set (line_items ls f i) \<Longrightarrow> item_type it \<noteq> Type"
  by (auto simp: line_items_def Let_def guessItemType_not_Type split: option.splits)

lemma findDeprecatedItems_type: "it \<in> set (findDeprecatedItems c f) \<Longrightarrow> item_type it \<noteq> Type"
  by (auto simp: findDeprecatedItems_def Let_def dest: line_items_type)

lemma types_empty_foldl:
  "\<forall>it \<in> set its. item_type it \<noteq> Type \<Longrightarrow> types_empty reg
     \<Longrightarrow> types_empty (foldl categorizeDeprecatedItem reg its)"
  by (induction its arbitrary: reg) (simp_all add: types_empty_categorize)

lemma types_empty_scanFile: "types_empty reg \<Longrightarrow> types_empty (scanFile e reg f)"
  by (auto simp: scanFile_def scanFile_try_def Let_def split: sum.splits
      intro!: types_empty_foldl dest: findDeprecatedItems_type)

lemma types_empty_scanFiles: "types_empty reg \<Longrightarrow> types_empty (foldl (scanFile e) reg fs)"
  by (induction fs arbitrary: reg) (simp_all add: types_empty_scanFile)

lemma types_empty_scanDirectory: "types_empty reg \<Longrightarrow> types_empty (scanDirectory e reg d)"
proof -
  have "types_empty reg \<Longrightarrow>
    types_empty (foldl (\<lambda>apis pattern. foldl (scanFile e) apis (glob_sync e d pattern)) reg ps)" for ps
    by (induction ps arbitrary: reg) (simp_all add: types_empty_scanFiles)
  then show "types_empty reg \<Longrightarrow> types_empty (scanDirectory e reg d)"
    by (simp add: scanDirectory_def)
qed

lemma types_empty_extract: "types_empty (extractor_extract e)"
proof -
  have "types_empty reg \<Longrightarrow>
    types_empty (foldl (\<lambda>apis sourcePath. if existsSync e sourcePath then scanDirectory e apis sourcePath else apis) reg ps)" for ps reg
    by (induction ps arbitrary: reg) (simp_all add: types_empty_scanDirectory)
  moreover have "types_empty initial_registry"
    by (simp add: types_empty_def initial_registry_def)
  ultimately show ?thesis by (simp add: extractor_extract_def)
qed

section \<open>Evaluation of the sample inputs\<close>

lemma sample_lines: "split_lines sample_content = [''/** @deprecated use Bar */'', ''type Foo = string'']"
  by (simp add: split_lines_def sample_content_def)


lemmas char_defs = is_space_def is_word_def is_line_terminator_def canonicalize_def

lemmas regex_defs = regex_test_def regex_exec_def Str_def Plus_def PlusLazy_def Opt_def sp_def word_def

lemmas scanner_defs = DEPRECATED_PATTERNS_def deprecated_leading_def deprecated_block_def
  deprecated_line_comment_def

lemmas kind_defs = guessItemType_def function_like_def class_like_def variable_like_def
  type_alias_like_def property_like_def import_like_def

lemmas name_defs = extractIdentifierName_def first_group_def function_name_def class_name_def
  constant_name_def type_name_def property_name_def import_name_def first_word_def

lemma sample_context: "getContextualInfo [''/** @deprecated use Bar */'', ''type Foo = string''] 0 = ''type Foo = string''"
  by (simp add: getContextualInfo_def trim_def keep_line_def startsWith_def char_defs upt_rec)

lemma sample_kind: "guessItemType ''type Foo = string'' = Class"
  by (simp add: kind_defs regex_defs char_defs)

lemma sample_name: "extractIdentifierName ''type Foo = string'' Class = ''Foo''"
  by (simp add: name_defs regex_defs char_defs)

lemma sample_items:
  "findDeprecatedItems sample_content ''a.ts'' =
     [\<lparr>item_file = ''a.ts'', item_line = 1, item_reason = ''use Bar'',
        item_context = ''type Foo = string'', item_type = Class,
        item_fullMatch = ''@deprecated use Bar */''\<rparr>,
      \<lparr>item_file = ''a.ts'', item_line = 1, item_reason = ''No reason provided'',
        item_context = ''type Foo = string'', item_type = Class,
        item_fullMatch = ''/** @deprecated use Bar */''\<rparr>]"
  by (simp add: findDeprecatedItems_def sample_lines line_items_def sample_context sample_kind
      scanner_defs regex_defs char_defs trim_def upt_rec)

lemma sample_relative: "getRelativePath sample_env (sample_root @ ''/a.ts'') = ''a.ts''"
  by (simp add: getRelativePath_def FRONTEND_SOURCE_PATHS_def startsWith_def sample_root_def sample_env_def)

lemma sample_scan_a:
  "scanFile sample_env initial_registry (sample_root @ ''/a.ts'') =
     [(''functions'', []), (''classes'', []), (''properties'', []),
      (''constants'', []), (''types'', []), (''imports'', []),
      (''classs'',
       [\<lparr>api_name = ''Foo'', api_reason = ''use Bar'', api_file = ''a.ts'',
          api_line = 1, api_context = ''type Foo = string''\<rparr>,
        \<lparr>api_name = ''Foo'', api_reason = ''No reason provided'', api_file = ''a.ts'',
          api_line = 1, api_context = ''type Foo = string''\<rparr>])]"
proof -
  have r: "readFileSync sample_env (sample_root @ ''/a.ts'') = Inr sample_content"
    by (simp add: sample_env_def)
  show ?thesis
    by (simp add: scanFile_def scanFile_try_def r sample_relative sample_items
        categorizeDeprecatedItem_def category_of_def sample_name initial_registry_def Let_def)
qed


lemma sample_extract:
  "extractor_extract sample_env =
     [(''functions'', []), (''classes'', []), (''properties'', []),
      (''constants'', []), (''types'', []), (''imports'', []),
      (''classs'',
       [\<lparr>api_name = ''Foo'', api_reason = ''use Bar'', api_file = ''a.ts'',
          api_line = 1, api_context = ''type Foo = string''\<rparr>,
        \<lparr>api_name = ''Foo'', api_reason = ''No reason provided'', api_file = ''a.ts'',
          api_line = 1, api_context = ''type Foo = string''\<rparr>])]"
proof -
  have x: "existsSync sample_env p = (p = sample_root)" for p
    by (simp add: sample_env_def)
  have g: "glob_sync sample_env d p = (if p = ''**/*.ts'' then [d @ ''/a.ts'', d @ ''/b.ts''] else [])" for d p
    by (simp add: sample_env_def)
  have b: "scanFile sample_env reg (sample_root @ ''/b.ts'') = reg" for reg
    by (simp add: scanFile_def scanFile_try_def sample_env_def)
  have d: "scanDirectory sample_env initial_registry sample_root =
     scanFile sample_env initial_registry (sample_root @ ''/a.ts'')"
    by (simp add: scanDirectory_def FILE_PATTERNS_def g b)
  have "extractor_extract sample_env = scanDirectory sample_env initial_registry sample_root"
    by (simp add: extractor_extract_def FRONTEND_SOURCE_PATHS_def x) (simp add: sample_root_def)
  then show ?thesis by (simp only: d sample_scan_a)
qed

section \<open>The kind \<open>type\<close> is never assigned\<close>

text \<open>
  C9.  The kind classifier never returns the kind \<open>type\<close>: every context matched by the
  type-alias pattern is matched by the earlier class/interface/type pattern, so the branch is
  unreachable, and no record is ever filed under the category \<open>types\<close> of an extraction.
\<close>

theorem type_kind_unreachable:
  "guessItemType context' \<noteq> Type
   \<and> (regex_test False type_alias_like context' \<longrightarrow> regex_test False class_like context')
   \<and> (\<forall>(category, records) \<in> set (extractor_extract e). category = ''types'' \<longrightarrow> records = [])"
  using guessItemType_not_Type type_alias_test types_empty_extract[of e]
  by (auto simp: types_empty_def)

theorem type_kind_unreachable_witness:
  "regex_test False type_alias_like ''type Foo = string''
   \<and> regex_test False class_like ''type Foo = string''
   \<and> guessItemType ''type Foo = string'' = Class
   \<and> (''types'', []) \<in> set (extractor_extract sample_env)"
proof -
  have t: "regex_test False type_alias_like ''type Foo = string''"
    by (simp add: kind_defs regex_defs char_defs)
  from t type_kind_unreachable[of "''type Foo = string''" sample_env] show ?thesis
    by (simp add: sample_kind sample_extract)
qed

section \<open>A file that cannot be scanned is skipped\<close>

lemma scanFile_unreadable: "readFileSync e f = Inl err \<Longrightarrow> scanFile e reg f = reg"
  by (simp add: scanFile_def scanFile_try_def)

lemma scanFile_readable:
  "readFileSync e f = Inr content \<Longrightarrow>
     scanFile e reg f = foldl categorizeDeprecatedItem reg (findDeprecatedItems content (getRelativePath e f))"
  by (simp add: scanFile_def scanFile_try_def)

lemma scanFiles_skip:
  "foldl (scanFile e) reg files = foldl (scanFile e) reg (filter (\<lambda>f. \<not> isl (readFileSync e f)) files)"
proof (induction files arbitrary: reg)
  case Nil
  show ?case by simp
next
  case (Cons f files)
  show ?case
  proof (cases "readFileSync e f")
    case (Inl err)
    then show ?thesis using Cons.IH[of reg] by (simp add: scanFile_unreadable)
  next
    case (Inr content)
    then show ?thesis using Cons.IH[of "scanFile e reg f"] by simp
  qed
qed

lemma getRelativePath_readable_only: "getRelativePath (readable_only e) f = getRelativePath e f"
  by (simp add: getRelativePath_def readable_only_def split: list.splits)

lemma scanFile_readable_only: "scanFile (readable_only e) = scanFile e"
proof -
  have rd: "readFileSync (readable_only e) = readFileSync e"
    by (simp add: readable_only_def)
  show ?thesis
    by (simp add: fun_eq_iff scanFile_def scanFile_try_def rd getRelativePath_readable_only
        split: sum.splits)
qed

lemma scanDirectory_skip: "scanDirectory (readable_only e) reg d = scanDirectory e reg d"
proof -
  have "foldl (\<lambda>apis pattern. foldl (scanFile e) apis (glob_sync (readable_only e) d pattern)) reg ps =
        foldl (\<lambda>apis pattern. foldl (scanFile e) apis (glob_sync e d pattern)) reg ps" for ps
  proof (induction ps arbitrary: reg)
    case Nil
    show ?case by simp
  next
    case (Cons p ps)
    have "foldl (scanFile e) reg (glob_sync (readable_only e) d p) = foldl (scanFile e) reg (glob_sync e d p)"
      using scanFiles_skip[of e reg "glob_sync e d p"] by (simp add: readable_only_def)
    then show ?case using Cons.IH by simp
  qed
  then show ?thesis by (simp add: scanDirectory_def scanFile_readable_only)
qed

lemma extract_skip: "extractor_extract (readable_only e) = extractor_extract e"
proof -
  have x: "existsSync (readable_only e) = existsSync e" by (simp add: readable_only_def)
  show ?thesis by (simp add: extractor_extract_def scanDirectory_skip x cong: if_cong)
qed

text \<open>
  C8.  When reading a file throws, the failure is caught inside \<open>scanFile\<close>: the registry
  is returned as it was and the scan goes on with the next file.  The files that can be read
  contribute as if the failing files had not been listed, and the extraction as a whole returns
  the registry built from the readable files alone.
\<close>

theorem scan_failure_skipped:
  "(readFileSync e f = Inl err \<longrightarrow> scanFile_try e reg f = Inl err \<and> scanFile e reg f = reg)
   \<and> (readFileSync e f = Inr content \<longrightarrow>
        scanFile e reg f =
          foldl categorizeDeprecatedItem reg (findDeprecatedItems content (getRelativePath e f)))
   \<and> foldl (scanFile e) reg files =
       foldl (scanFile e) reg (filter (\<lambda>f. \<not> isl (readFileSync e f)) files)
   \<and> extractor_extract e = extractor_extract (readable_only e)"
  using scanFiles_skip[of e reg files]
  by (simp add: scanFile_unreadable scanFile_readable extract_skip scanFile_try_def)


theorem scan_failure_skipped_witness:
  "readFileSync sample_env (sample_root @ ''/b.ts'') = Inl (IoError ''EACCES'')
   \<and> scanFile sample_env initial_registry (sample_root @ ''/b.ts'') = initial_registry
   \<and> readFileSync sample_env (sample_root @ ''/a.ts'') = Inr sample_content
   \<and> scanFile sample_env initial_registry (sample_root @ ''/a.ts'') =
       foldl categorizeDeprecatedItem initial_registry (findDeprecatedItems sample_content ''a.ts'')
   \<and> foldl (scanFile sample_env) initial_registry [sample_root @ ''/a.ts'', sample_root @ ''/b.ts''] =
       foldl (scanFile sample_env) initial_registry [sample_root @ ''/a.ts'']"
proof -
  have b: "readFileSync sample_env (sample_root @ ''/b.ts'') = Inl (IoError ''EACCES'')"
    by (simp add: sample_env_def)
  have a: "readFileSync sample_env (sample_root @ ''/a.ts'') = Inr sample_content"
    by (simp add: sample_env_def)
  from scan_failure_skipped[of sample_env "sample_root @ ''/b.ts''" "IoError ''EACCES''"
      initial_registry sample_content "[sample_root @ ''/a.ts'', sample_root @ ''/b.ts'']"]
    scan_failure_skipped[of sample_env "sample_root @ ''/a.ts''" "IoError ''EACCES''"
      initial_registry sample_content "[]"]
  show ?thesis
    by (simp add: a b sample_relative)
qed

section \<open>The context of an annotation\<close>

lemma concat_keep:
  "concat (map (\<lambda>j. if P (f j) then [f j] else []) js) = filter P (map f js)"
  by (induction js) simp_all

lemma nth_window_before: "map ((!) (pre @ a # post)) [length pre - n..<length pre] = drop (length pre - n) pre"
proof -
  have "map ((!) (pre @ a # post)) [length pre - n..<length pre] = map ((!) pre) [length pre - n..<length pre]"
    by (simp add: nth_append)
  also have "\<dots> = map ((!) pre) (drop (length pre - n) [0..<length pre])"
    by simp
  also have "\<dots> = drop (length pre - n) (map ((!) pre) [0..<length pre])"
    by (simp only: drop_map)
  finally show ?thesis by (simp add: map_nth)
qed

lemma nth_window_after:
  "map ((!) (pre @ a # post)) [Suc (length pre)..<min (length post) n + Suc (length pre)] = take n post"
proof -
  let ?m = "min (length post) n"
  have "[Suc (length pre)..<?m + Suc (length pre)] = map (\<lambda>k. k + Suc (length pre)) [0..<?m]"
    by (rule map_add_upt[symmetric])
  then have "map ((!) (pre @ a # post)) [Suc (length pre)..<?m + Suc (length pre)] =
     map (\<lambda>k. (pre @ a # post) ! (k + Suc (length pre))) [0..<?m]"
    by (simp only: map_map comp_def)
  also have "\<dots> = map ((!) post) [0..<?m]"
    by (simp add: nth_append)
  also have "\<dots> = take ?m (map ((!) post) [0..<length post])"
    by (simp add: take_map)
  also have "\<dots> = take n post"
    by (cases "n \<le> length post") (simp_all add: map_nth min_def)
  finally show ?thesis .
qed

lemma getContextualInfo_window:
  "getContextualInfo (pre @ a # post) (length pre) =
     join '' '' (filter keep_line (map trim (drop (length pre - 2) pre @ take 2 post)))"
proof -
  let ?ls = "pre @ a # post"
  let ?i = "length pre"
  let ?g = "\<lambda>j. if keep_line (trim (?ls ! j)) then [trim (?ls ! j)] else []"
  let ?h = "\<lambda>j. if j \<noteq> ?i then (let line = trim (?ls ! j) in if keep_line line then [line] else []) else []"
  have start: "nat (max 0 (int ?i - 2)) = ?i - 2" by simp
  have e: "min (length ?ls) (?i + 3) = ?i + Suc (min (length post) 2)" by simp
  have "[?i - 2..<?i + Suc (min (length post) 2)] = [?i - 2..<?i] @ [?i..<?i + Suc (min (length post) 2)]"
    by (rule upt_add_eq_append) simp
  also have "[?i..<?i + Suc (min (length post) 2)] = ?i # [Suc ?i..<?i + Suc (min (length post) 2)]"
    by (rule upt_conv_Cons) simp
  finally have range: "[?i - 2..<min (length ?ls) (?i + 3)] =
     [?i - 2..<?i] @ [?i] @ [Suc ?i..<min (length post) 2 + Suc ?i]"
    unfolding e by (simp add: add.commute)
  have before: "concat (map ?h [?i - 2..<?i]) = concat (map ?g [?i - 2..<?i])"
    by (rule arg_cong[where f = concat], rule map_cong) (simp_all add: Let_def)
  have after: "concat (map ?h [Suc ?i..<min (length post) 2 + Suc ?i]) =
     concat (map ?g [Suc ?i..<min (length post) 2 + Suc ?i])"
    by (rule arg_cong[where f = concat], rule map_cong) (auto simp: Let_def)
  have g: "concat (map ?g js) = filter keep_line (map trim (map ((!) ?ls) js))" for js
    using concat_keep[of keep_line "\<lambda>j. trim (?ls ! j)" js] by (simp add: comp_def)
  have "concat (map ?h [?i - 2..<min (length ?ls) (?i + 3)]) =
     concat (map ?g [?i - 2..<?i]) @ concat (map ?g [Suc ?i..<min (length post) 2 + Suc ?i])"
    unfolding range using before after by simp
  also have "\<dots> = filter keep_line (map trim (drop (?i - 2) pre @ take 2 post))"
    unfolding g nth_window_before nth_window_after by simp
  finally show ?thesis
    unfolding getContextualInfo_def Let_def start by simp
qed

lemma line_items_context:
  "it \<in> set (line_items ls f j) \<Longrightarrow> item_context it = getContextualInfo ls j \<and> item_line it = j + 1"
  by (auto simp: line_items_def Let_def split: option.splits)

lemma findDeprecatedItems_origin:
  "it \<in> set (findDeprecatedItems content f) \<Longrightarrow>
     \<exists>j < length (split_lines content). it \<in> set (line_items (split_lines content) f j)"
  by (auto simp: findDeprecatedItems_def Let_def)

lemma item_context_at_line:
  assumes "it \<in> set (findDeprecatedItems content f)" and "item_line it = i + 1"
  shows "i < length (split_lines content) \<and> item_context it = getContextualInfo (split_lines content) i"
proof -
  from assms(1) obtain j where j: "j < length (split_lines content)"
    and m: "it \<in> set (line_items (split_lines content) f j)"
    using findDeprecatedItems_origin by blast
  from line_items_context[OF m] assms(2) have "j = i" by simp
  then show ?thesis using j line_items_context[OF m] by simp
qed

lemma hit_lines:
  "split_lines hit_content = [''const old = 1''] @ ''// @deprecated x'' # [''a'', ''b'', ''c'']"
  by (simp add: split_lines_def hit_content_def)

lemma hit_context:
  "getContextualInfo [''const old = 1'', ''// @deprecated x'', ''a'', ''b'', ''c''] (Suc 0) =
     ''const old = 1 a b''"
  by (simp add: getContextualInfo_def trim_def keep_line_def startsWith_def char_defs upt_rec)

lemma hit_kind: "guessItemType ''const old = 1 a b'' = Constant"
  by (simp add: kind_defs regex_defs char_defs)

lemma hit_line_items:
  "line_items [''const old = 1'', ''// @deprecated x'', ''a'', ''b'', ''c''] ''a.ts'' 1 =
     [hit_item\<lparr>item_fullMatch := ''@deprecated x''\<rparr>, hit_item]"
  by (simp add: line_items_def Let_def hit_context hit_kind hit_item_def scanner_defs regex_defs
      char_defs trim_def)

lemma hit_found:
  "hit_item \<in> set (findDeprecatedItems hit_content ''a.ts'') \<and> item_line hit_item = 1 + 1"
proof -
  have "hit_item \<in> set (line_items (split_lines hit_content) ''a.ts'' 1)"
    using hit_lines hit_line_items by simp
  moreover have "1 < length (split_lines hit_content)"
    using hit_lines by simp
  ultimately have "hit_item \<in> set (findDeprecatedItems hit_content ''a.ts'')"
    unfolding findDeprecatedItems_def Let_def by (auto simp del: upt_Suc)
  then show ?thesis by (simp add: hit_item_def)
qed

text \<open>
  C4, as amended.  For an annotation hit at line \<open>i\<close>, the context that the item carries to
  the kind classifier and the name extraction is built from the two lines before and the two
  lines after line \<open>i\<close>, as far as they exist: line \<open>i\<close> itself is left out, every line
  is trimmed, a trimmed line that is empty or starts with \<open>//\<close> or \<open>*\<close> is dropped, and
  the remaining lines are joined with single spaces.
\<close>

theorem context_window:
  "getContextualInfo (pre @ a # post) (length pre) =
     join '' '' (filter keep_line (map trim (drop (length pre - 2) pre @ take 2 post)))
   \<and> (it \<in> set (findDeprecatedItems content f) \<and> item_line it = i + 1 \<longrightarrow>
        i < length (split_lines content)
        \<and> item_context it = getContextualInfo (split_lines content) i)
   \<and> (split_lines content = pre @ a # post \<and> it \<in> set (findDeprecatedItems content f)
        \<and> item_line it = length pre + 1 \<longrightarrow>
        item_context it =
          join '' '' (filter keep_line (map trim (drop (length pre - 2) pre @ take 2 post))))"
proof (intro conjI impI)
  show "getContextualInfo (pre @ a # post) (length pre) =
     join '' '' (filter keep_line (map trim (drop (length pre - 2) pre @ take 2 post)))"
    by (rule getContextualInfo_window)
next
  assume "it \<in> set (findDeprecatedItems content f) \<and> item_line it = i + 1"
  then show "i < length (split_lines content)"
    using item_context_at_line by blast
next
  assume "it \<in> set (findDeprecatedItems content f) \<and> item_line it = i + 1"
  then show "item_context it = getContextualInfo (split_lines content) i"
    using item_context_at_line by blast
next
  assume h: "split_lines content = pre @ a # post \<and> it \<in> set (findDeprecatedItems content f)
        \<and> item_line it = length pre + 1"
  then have "item_context it = getContextualInfo (split_lines content) (length pre)"
    using item_context_at_line by blast
  then show "item_context it =
          join '' '' (filter keep_line (map trim (drop (length pre - 2) pre @ take 2 post)))"
    using h getContextualInfo_window[of pre a post] by simp
qed

theorem context_window_witness:
  "split_lines hit_content = [''const old = 1''] @ ''// @deprecated x'' # [''a'', ''b'', ''c'']
   \<and> hit_item \<in> set (findDeprecatedItems hit_content ''a.ts'')
   \<and> item_line hit_item = length [''const old = 1''] + 1
   \<and> item_context hit_item = getContextualInfo (split_lines hit_content) 1
   \<and> getContextualInfo (split_lines hit_content) 1 = ''const old = 1 a b''
   \<and> item_context hit_item = ''const old = 1 a b''"
proof -
  have l: "item_line hit_item = length [''const old = 1''] + 1"
    by (simp add: hit_item_def)
  have e: "join '' '' (filter keep_line (map trim
       (drop (length [''const old = 1''] - 2) [''const old = 1''] @ take 2 [''a'', ''b'', ''c'']))) =
     ''const old = 1 a b''"
    by (simp add: trim_def keep_line_def startsWith_def char_defs)
  from context_window[of "[''const old = 1'']" "''// @deprecated x''" "[''a'', ''b'', ''c'']"
      hit_item hit_content "''a.ts''" 1] hit_lines hit_found l
  have "item_context hit_item = getContextualInfo (split_lines hit_content) 1"
    and "getContextualInfo (split_lines hit_content) 1 = ''const old = 1 a b''"
    and "item_context hit_item = ''const old = 1 a b''"
    unfolding e by simp_all
  then show ?thesis using hit_lines hit_found l by blast
qed

text \<open>
  C4, as stated, fails: at the annotation \<open>// @deprecated x\<close> of a file with three more
  lines below it, the third line after the annotation is not part of the context of the item.
\<close>

theorem context_window_counterexample:
  "hit_item \<in> set (findDeprecatedItems hit_content ''a.ts'')
   \<and> item_line hit_item = 2
   \<and> split_lines hit_content ! 1 = ''// @deprecated x''
   \<and> item_context hit_item = ''const old = 1 a b''
   \<and> context_spec (split_lines hit_content) 1 = ''const old = 1 a b c''
   \<and> item_context hit_item \<noteq> context_spec (split_lines hit_content) 1"
proof -
  have s: "context_spec (split_lines hit_content) 1 = ''const old = 1 a b c''"
    using hit_lines
    by (simp add: context_spec_def trim_def keep_line_def startsWith_def char_defs)
  have c: "item_context hit_item = ''const old = 1 a b''" "item_line hit_item = 2"
    by (simp_all add: hit_item_def)
  have n: "split_lines hit_content ! 1 = ''// @deprecated x''"
    using hit_lines by simp
  show ?thesis using hit_found s c n by simp
qed

section \<open>The name of a deprecated item\<close>

lemma first_group_Some:
  assumes "first_group m n = Some g"
  shows "g \<noteq> [] \<and> (\<exists>i. 1 \<le> i \<and> i \<le> n \<and> m i = Some g \<and> (\<forall>j. 1 \<le> j \<and> j < i \<longrightarrow> m j = None \<or> m j = Some []))"
proof -
  let ?P = "\<lambda>i. case m i of None \<Rightarrow> False | Some g \<Rightarrow> g \<noteq> []"
  from assms obtain i where f: "List.find ?P [1..<Suc n] = Some i" and mi: "m i = Some g"
    by (auto simp: first_group_def split: option.splits)
  from f obtain k where k: "k < length [1..<Suc n]" "?P ([1..<Suc n] ! k)" "i = [1..<Suc n] ! k"
    "\<forall>j<k. \<not> ?P ([1..<Suc n] ! j)"
    unfolding find_Some_iff by blast
  from k(1) have kn: "k < n" by (simp del: upt_Suc)
  from k(3) kn have ik: "i = Suc k" by (simp del: upt_Suc)
  have g: "g \<noteq> []" using k(2) mi ik kn by (simp del: upt_Suc)
  have "\<forall>j. 1 \<le> j \<and> j < i \<longrightarrow> m j = None \<or> m j = Some []"
  proof (intro allI impI)
    fix j assume j: "1 \<le> j \<and> j < i"
    then have "j - 1 < k" using ik by auto
    then have "\<not> ?P ([1..<Suc n] ! (j - 1))" using k(4) by blast
    moreover have "[1..<Suc n] ! (j - 1) = j" using j ik kn by (simp del: upt_Suc)
    ultimately show "m j = None \<or> m j = Some []" by (simp split: option.splits)
  qed
  then have "1 \<le> i \<and> i \<le> n \<and> m i = Some g \<and> (\<forall>j. 1 \<le> j \<and> j < i \<longrightarrow> m j = None \<or> m j = Some [])"
    using mi ik kn by simp
  then show ?thesis using g by blast
qed

lemma first_group_None:
  assumes "first_group m n = None" "1 \<le> i" "i \<le> n"
  shows "m i = None \<or> m i = Some []"
proof -
  let ?P = "\<lambda>i. case m i of None \<Rightarrow> False | Some g \<Rightarrow> g \<noteq> []"
  have "List.find ?P [1..<Suc n] = None"
  proof (cases "List.find ?P [1..<Suc n]")
    case None
    then show ?thesis .
  next
    case (Some k)
    then have "?P k" by (auto simp: find_Some_iff)
    then have "m k \<noteq> None" by (auto split: option.splits)
    moreover have "first_group m n = m k" using Some by (simp add: first_group_def)
    ultimately show ?thesis using assms(1) by simp
  qed
  then have "\<not> ?P i" using assms(2,3) by (auto simp: find_None_iff simp del: upt_Suc)
  then show ?thesis by (simp split: option.splits)
qed

lemma patterns_None: "(patterns k = None) = (k = Unknown)"
  by (cases k) simp_all

text \<open>
  C5, as amended.  The name is the first non-empty capture group of the pattern of the kind.
  The generic first-word pattern is used only for the kind \<open>unknown\<close>, the one kind without a
  pattern of its own.  When the pattern that is used does not match, or none of its groups
  captured a non-empty string, the name is the literal \<open>unknown\<close>.
\<close>

theorem name_extraction:
  "(patterns k = Some (p, n) \<longrightarrow>
      extractIdentifierName c k =
        (case regex_exec False p c of
           None \<Rightarrow> ''unknown''
         | Some m \<Rightarrow> (case first_group m n of Some g \<Rightarrow> g | None \<Rightarrow> ''unknown'')))
   \<and> (patterns k = Some (p, n) \<and> \<not> regex_test False p c \<longrightarrow> extractIdentifierName c k = ''unknown'')
   \<and> (patterns k = None \<longrightarrow> k = Unknown)
   \<and> extractIdentifierName c Unknown =
        (case regex_exec False first_word c of
           None \<Rightarrow> ''unknown''
         | Some m \<Rightarrow> (case first_group m 1 of Some g \<Rightarrow> g | None \<Rightarrow> ''unknown''))
   \<and> (first_group m n = Some g \<longrightarrow>
        g \<noteq> [] \<and> (\<exists>i. 1 \<le> i \<and> i \<le> n \<and> m i = Some g
                     \<and> (\<forall>j. 1 \<le> j \<and> j < i \<longrightarrow> m j = None \<or> m j = Some [])))
   \<and> (first_group m n = None \<longrightarrow> (\<forall>i. 1 \<le> i \<and> i \<le> n \<longrightarrow> m i = None \<or> m i = Some []))"
proof (intro conjI impI)
  assume "patterns k = Some (p, n)"
  then show "extractIdentifierName c k =
        (case regex_exec False p c of
           None \<Rightarrow> ''unknown''
         | Some m \<Rightarrow> (case first_group m n of Some g \<Rightarrow> g | None \<Rightarrow> ''unknown''))"
    by (simp add: extractIdentifierName_def)
next
  assume "patterns k = Some (p, n) \<and> \<not> regex_test False p c"
  then show "extractIdentifierName c k = ''unknown''"
    by (simp add: extractIdentifierName_def regex_test_def)
next
  assume "patterns k = None"
  then show "k = Unknown" by (simp add: patterns_None)
next
  show "extractIdentifierName c Unknown =
        (case regex_exec False first_word c of
           None \<Rightarrow> ''unknown''
         | Some m \<Rightarrow> (case first_group m 1 of Some g \<Rightarrow> g | None \<Rightarrow> ''unknown''))"
    by (simp add: extractIdentifierName_def del: One_nat_def)
next
  assume "first_group m n = Some g"
  then show "g \<noteq> []" using first_group_Some by blast
next
  assume "first_group m n = Some g"
  then show "\<exists>i. 1 \<le> i \<and> i \<le> n \<and> m i = Some g
                     \<and> (\<forall>j. 1 \<le> j \<and> j < i \<longrightarrow> m j = None \<or> m j = Some [])"
    using first_group_Some by blast
next
  assume "first_group m n = None"
  then show "\<forall>i. 1 \<le> i \<and> i \<le> n \<longrightarrow> m i = None \<or> m i = Some []"
    using first_group_None by blast
qed

theorem name_extraction_witness:
  "patterns Function = Some (function_name, 3)
   \<and> extractIdentifierName ''function foo(a, b) {}'' Function = ''foo''
   \<and> patterns Import = Some (import_name, 1) \<and> \<not> regex_test False import_name side_effect_import
   \<and> extractIdentifierName side_effect_import Import = ''unknown''
   \<and> patterns Unknown = None
   \<and> extractIdentifierName ''legacy();'' Unknown = ''legacy''
   \<and> first_group [1 \<mapsto> ''a'', 2 \<mapsto> ''b''] 2 = Some ''a''
   \<and> first_group [1 \<mapsto> [], 2 \<mapsto> ''b''] 2 = Some ''b''
   \<and> first_group [1 \<mapsto> []] 2 = None"
proof -
  have i: "\<not> regex_test False import_name side_effect_import"
    by (simp add: side_effect_import_def name_defs regex_defs char_defs)
  have f: "extractIdentifierName ''function foo(a, b) {}'' Function = ''foo''"
    by (simp add: name_defs regex_defs char_defs upt_rec)
  have l: "extractIdentifierName ''legacy();'' Unknown = ''legacy''"
    by (simp add: name_defs regex_defs char_defs)
  have p: "patterns Import = Some (import_name, 1)"
    by simp
  have u: "extractIdentifierName side_effect_import Import = ''unknown''"
    using name_extraction[of Import import_name 1 side_effect_import Map.empty "[]"] p i by blast
  show ?thesis using i f l u by (simp add: first_group_def upt_rec)
qed

text \<open>
  C5, as stated, fails: for a side-effect import the pattern of the kind \<open>import\<close> does not
  match, and the name is \<open>unknown\<close> although the generic pattern would find a word.
\<close>

theorem name_extraction_counterexample:
  "guessItemType side_effect_import = Import
   \<and> extractIdentifierName side_effect_import Import = ''unknown''
   \<and> extractIdentifierName_spec side_effect_import Import = ''import''
   \<and> extractIdentifierName side_effect_import Import \<noteq> extractIdentifierName_spec side_effect_import Import"
  by (simp add: side_effect_import_def kind_defs name_defs extractIdentifierName_spec_def
      regex_defs char_defs)

section \<open>The lookup index and the reports of the matcher\<close>

lemma lookup_add_apply:
  "lookup_add m c item k =
     (if k = toLowerCase (api_name item)
      then Some ((case m k of None \<Rightarrow> [] | Some xs \<Rightarrow> xs) @ [(item, c)])
      else m k)"
  by (auto simp: lookup_add_def Let_def split: option.splits)

lemma lookup_items:
  "foldl (\<lambda>m item. lookup_add m c item) m items k =
     (let new = filter (\<lambda>e. toLowerCase (api_name (fst e)) = k) (map (\<lambda>item. (item, c)) items)
      in if new = [] then m k else Some ((case m k of None \<Rightarrow> [] | Some xs \<Rightarrow> xs) @ new))"
proof (induction items arbitrary: m)
  case Nil
  show ?case by simp
next
  case (Cons item items)
  show ?case
    unfolding foldl_Cons Cons.IH
    by (simp add: lookup_add_apply Let_def)
qed

lemma lookup_categories:
  "foldl (\<lambda>m (category, items). foldl (\<lambda>m item. lookup_add m category item) m items) m apis k =
     (let new = filter (\<lambda>e. toLowerCase (api_name (fst e)) = k) (entries_of apis)
      in if new = [] then m k else Some ((case m k of None \<Rightarrow> [] | Some xs \<Rightarrow> xs) @ new))"
proof (induction apis arbitrary: m)
  case Nil
  show ?case by (simp add: entries_of_def)
next
  case (Cons a apis)
  obtain c items where a: "a = (c, items)" by (cases a)
  have e: "entries_of (a # apis) = map (\<lambda>item. (item, c)) items @ entries_of apis"
    by (simp add: entries_of_def a)
  show ?case
    unfolding foldl_Cons Cons.IH e
    by (simp add: a lookup_items Let_def)
qed

lemma deprecatedLookup_entries:
  "deprecatedLookup apis k =
     (let found = filter (\<lambda>e. toLowerCase (api_name (fst e)) = k) (entries_of apis)
      in if found = [] then None else Some found)"
  unfolding deprecatedLookup_def lookup_categories by (simp add: Let_def)

lemma report_one:
  "\<not> isIgnored R cfg name \<Longrightarrow> length (reportDeprecated R cfg node name info) = 1"
  by (simp add: reportDeprecated_def Let_def)

lemma isIgnored_no_patterns: "ignorePatterns cfg = [] \<Longrightarrow> \<not> isIgnored R cfg name"
  by (simp add: isIgnored_def)

lemma checkIdentifier_first:
  assumes "name \<notin> set builtIns"
  shows "checkIdentifier R (deprecatedLookup apis) cfg node name =
     (case filter (\<lambda>e. toLowerCase (api_name (fst e)) = toLowerCase name) (entries_of apis) of
        [] \<Rightarrow> []
      | first # _ \<Rightarrow> reportDeprecated R cfg node name first)"
  using assms
  by (simp add: checkIdentifier_def deprecatedLookup_entries Let_def split: list.splits)


lemmas matcher_defs = lint_def create_def destructure_def checkIdentifier_def reportDeprecated_def
  isIgnored_def builtIns_def deprecatedLookup_entries entries_of_def Let_def toLowerCase_def
  lower_char_def  char_of_def bit_iff_odd

lemmas sample_defs = sample_apis_def serialise_api_def set_api_def sample_RegExp_def
  options_off_def options_default_def options_ignore_def direct_call_def method_call_def

text \<open>
  C3, as amended.  Two identifiers with the same lower-case form, neither of them one of the
  built-in names, are treated alike when no ignore pattern is configured: a check of either
  yields exactly one report when the lower-case form is the lower-cased name of a record of
  the registry, and none otherwise.
\<close>

theorem case_insensitive_report:
  assumes "toLowerCase n1 = toLowerCase n2"
    and "n1 \<notin> set builtIns" and "n2 \<notin> set builtIns"
    and "ignorePatterns cfg = []"
  shows "length (checkIdentifier R (deprecatedLookup apis) cfg node n1) =
         length (checkIdentifier R (deprecatedLookup apis) cfg node n2)
     \<and> ((\<exists>e \<in> set (entries_of apis). toLowerCase (api_name (fst e)) = toLowerCase n1) \<longrightarrow>
          length (checkIdentifier R (deprecatedLookup apis) cfg node n1) = 1
          \<and> length (checkIdentifier R (deprecatedLookup apis) cfg node n2) = 1)
     \<and> ((\<forall>e \<in> set (entries_of apis). toLowerCase (api_name (fst e)) \<noteq> toLowerCase n1) \<longrightarrow>
          checkIdentifier R (deprecatedLookup apis) cfg node n1 = []
          \<and> checkIdentifier R (deprecatedLookup apis) cfg node n2 = [])"
proof -
  let ?found = "filter (\<lambda>e. toLowerCase (api_name (fst e)) = toLowerCase n1) (entries_of apis)"
  have c1: "checkIdentifier R (deprecatedLookup apis) cfg node n1 =
     (case ?found of [] \<Rightarrow> [] | first # _ \<Rightarrow> reportDeprecated R cfg node n1 first)"
    using checkIdentifier_first[OF assms(2)] .
  have c2: "checkIdentifier R (deprecatedLookup apis) cfg node n2 =
     (case ?found of [] \<Rightarrow> [] | first # _ \<Rightarrow> reportDeprecated R cfg node n2 first)"
    using checkIdentifier_first[OF assms(3), of R apis cfg node] assms(1) by simp
  have one: "length (reportDeprecated R cfg node n info) = 1" for n info
    using report_one[OF isIgnored_no_patterns[OF assms(4)]] .
  show ?thesis
  proof (cases ?found)
    case Nil
    then have "\<forall>e \<in> set (entries_of apis). toLowerCase (api_name (fst e)) \<noteq> toLowerCase n1"
      by (simp add: filter_empty_conv)
    then show ?thesis using Nil c1 c2 by auto
  next
    case (Cons first others)
    then have "first \<in> set ?found" by simp
    then have "\<exists>e \<in> set (entries_of apis). toLowerCase (api_name (fst e)) = toLowerCase n1"
      by auto
    then show ?thesis using Cons c1 c2 one by auto
  qed
qed

theorem case_insensitive_report_witness:
  "toLowerCase ''serialise'' = toLowerCase ''SERIALISE''
   \<and> ''serialise'' \<notin> set builtIns \<and> ''SERIALISE'' \<notin> set builtIns
   \<and> ignorePatterns (destructure options_default) = []
   \<and> (serialise_api, ''functions'') \<in> set (entries_of sample_apis)
   \<and> toLowerCase (api_name serialise_api) = toLowerCase ''serialise''
   \<and> length (checkIdentifier sample_RegExp (deprecatedLookup sample_apis)
         (destructure options_default) 0 ''serialise'') = 1
   \<and> length (checkIdentifier sample_RegExp (deprecatedLookup sample_apis)
         (destructure options_default) 0 ''SERIALISE'') = 1"
proof -
  have a: "toLowerCase ''serialise'' = toLowerCase ''SERIALISE''"
    by (simp add: toLowerCase_def lower_char_def char_of_def bit_iff_odd)
  have b: "''serialise'' \<notin> set builtIns" "''SERIALISE'' \<notin> set builtIns"
    by (simp_all add: builtIns_def)
  have c: "ignorePatterns (destructure options_default) = []"
    by (simp add: destructure_def options_default_def)
  have d: "(serialise_api, ''functions'') \<in> set (entries_of sample_apis)"
    by (simp add: entries_of_def sample_apis_def)
  have e: "toLowerCase (api_name serialise_api) = toLowerCase ''serialise''"
    by (simp add: serialise_api_def)
  have "\<exists>e \<in> set (entries_of sample_apis). toLowerCase (api_name (fst e)) = toLowerCase ''serialise''"
    using d e by force
  with case_insensitive_report[OF a b c, of sample_RegExp sample_apis 0] a b c d e
  show ?thesis by blast
qed

text \<open>
  C3, as stated, fails: the built-in names are excluded by their exact spelling before the
  name is lower-cased, so with a record named \<open>set\<close> the identifier \<open>set\<close> is reported and
  the identifier \<open>Set\<close> is not.
\<close>

theorem case_insensitive_report_counterexample:
  "toLowerCase ''Set'' = toLowerCase ''set''
   \<and> deprecatedLookup sample_apis (toLowerCase ''Set'') \<noteq> None
   \<and> ignorePatterns (destructure options_default) = []
   \<and> checkIdentifier sample_RegExp (deprecatedLookup sample_apis)
        (destructure options_default) 0 ''Set'' = []
   \<and> length (checkIdentifier sample_RegExp (deprecatedLookup sample_apis)
        (destructure options_default) 0 ''set'') = 1"
  by (simp add: matcher_defs sample_defs)


lemma Str_simps: "Str [] = Eps" "Str (a # s) = Seq (Atom (Lit a)) (Str s)"
  by (simp_all add: Str_def)

lemma rsem_Str:
  "list_all2 (\<lambda>a c. accepts ic (Lit a) c) s s' \<Longrightarrow> rsem ic (Str s) (p, s' @ t) (p + length s, t)"
proof (induction s arbitrary: s' p)
  case Nil
  then show ?case by (simp add: Str_simps rsem_Eps)
next
  case (Cons a s)
  then obtain c cs where s': "s' = c # cs" and a: "accepts ic (Lit a) c"
    and cs: "list_all2 (\<lambda>a c. accepts ic (Lit a) c) s cs"
    by (auto simp: list_all2_Cons1)
  have "rsem ic (Atom (Lit a)) (p, c # cs @ t) (Suc p, cs @ t)"
    using a by (rule rsem_Atom)
  moreover have "rsem ic (Str s) (Suc p, cs @ t) (Suc p + length s, t)"
    using Cons.IH[OF cs] .
  ultimately show ?case
    unfolding Str_simps s' by (auto intro: rsem_Seq)
qed

lemma isIgnored_iff:
  "isIgnored R cfg name =
     (\<exists>pattern \<in> set (ignorePatterns cfg).
        case R pattern of
          Some regex \<Rightarrow> (\<exists>i \<le> length name. \<exists>p' s'. rsem False regex (i, drop i name) (p', s'))
        | None \<Rightarrow> pattern = name)"
  unfolding isIgnored_def list_ex_iff regex_test_sem ..

lemma isIgnored_checkIdentifier:
  "isIgnored R cfg name \<Longrightarrow> checkIdentifier R lookup cfg node name = []"
  by (simp add: checkIdentifier_def reportDeprecated_def split: option.splits list.splits)

text \<open>
  C6.  A name is ignored exactly when one of the ignore patterns applies to it: a pattern that
  compiles applies when the regular expression matches somewhere in the name, a pattern that
  does not compile applies when it equals the name.  Each pattern is judged on its own, so a
  pattern that does not compile leaves the others as they are, and an ignored name is not
  reported.
\<close>

theorem ignore_patterns:
  "isIgnored R cfg name =
     (\<exists>pattern \<in> set (ignorePatterns cfg).
        case R pattern of
          Some regex \<Rightarrow> (\<exists>i \<le> length name. \<exists>p' s'. rsem False regex (i, drop i name) (p', s'))
        | None \<Rightarrow> pattern = name)
   \<and> (isIgnored R cfg name \<longrightarrow> checkIdentifier R lookup cfg node name = [])
   \<and> isIgnored R (cfg\<lparr>ignorePatterns := ps @ p # qs\<rparr>) name =
       (isIgnored R (cfg\<lparr>ignorePatterns := ps\<rparr>) name
        \<or> isIgnored R (cfg\<lparr>ignorePatterns := [p]\<rparr>) name
        \<or> isIgnored R (cfg\<lparr>ignorePatterns := qs\<rparr>) name)
   \<and> (R p = None \<longrightarrow> isIgnored R (cfg\<lparr>ignorePatterns := [p]\<rparr>) name = (p = name))
   \<and> (R p = Some regex \<longrightarrow>
        isIgnored R (cfg\<lparr>ignorePatterns := [p]\<rparr>) name = regex_test False regex name)"
proof (intro conjI impI)
  show "isIgnored R cfg name =
     (\<exists>pattern \<in> set (ignorePatterns cfg).
        case R pattern of
          Some regex \<Rightarrow> (\<exists>i \<le> length name. \<exists>p' s'. rsem False regex (i, drop i name) (p', s'))
        | None \<Rightarrow> pattern = name)"
    by (rule isIgnored_iff)
next
  assume "isIgnored R cfg name"
  then show "checkIdentifier R lookup cfg node name = []"
    by (rule isIgnored_checkIdentifier)
next
  show "isIgnored R (cfg\<lparr>ignorePatterns := ps @ p # qs\<rparr>) name =
       (isIgnored R (cfg\<lparr>ignorePatterns := ps\<rparr>) name
        \<or> isIgnored R (cfg\<lparr>ignorePatterns := [p]\<rparr>) name
        \<or> isIgnored R (cfg\<lparr>ignorePatterns := qs\<rparr>) name)"
    by (simp add: isIgnored_def)
next
  assume "R p = None"
  then show "isIgnored R (cfg\<lparr>ignorePatterns := [p]\<rparr>) name = (p = name)"
    by (simp add: isIgnored_def)
next
  assume "R p = Some regex"
  then show "isIgnored R (cfg\<lparr>ignorePatterns := [p]\<rparr>) name = regex_test False regex name"
    by (simp add: isIgnored_def)
qed

theorem ignore_patterns_witness:
  "sample_RegExp ''['' = None
   \<and> isIgnored sample_RegExp (destructure options_ignore\<lparr>ignorePatterns := [''['']\<rparr>) ''[''
   \<and> \<not> isIgnored sample_RegExp (destructure options_ignore\<lparr>ignorePatterns := [''['']\<rparr>) ''serialise''
   \<and> sample_RegExp ''serial'' = Some (Str ''serial'')
   \<and> rsem False (Str ''serial'') (0, drop 0 ''serialise'') (6, ''ise'')
   \<and> isIgnored sample_RegExp (destructure options_ignore) ''serialise''
   \<and> checkIdentifier sample_RegExp (deprecatedLookup sample_apis) (destructure options_ignore)
        0 ''serialise'' = []"
proof -
  let ?cfg = "destructure options_ignore"
  have n: "sample_RegExp ''['' = None" and s: "sample_RegExp ''serial'' = Some (Str ''serial'')"
    by (simp_all add: sample_RegExp_def)
  have ps: "ignorePatterns ?cfg = [''['', ''serial'']"
    by (simp add: destructure_def options_ignore_def)
  have r: "rsem False (Str ''serial'') (0, drop 0 ''serialise'') (6, ''ise'')"
    using rsem_Str[of False "''serial''" "''serial''" 0 "''ise''"] by (simp add: eval_nat_numeral)
  have "\<exists>i \<le> length ''serialise''. \<exists>p' s'. rsem False (Str ''serial'') (i, drop i ''serialise'') (p', s')"
    using r by blast
  then have i: "isIgnored sample_RegExp ?cfg ''serialise''"
    using ignore_patterns[of sample_RegExp ?cfg "''serialise''"] ps s by auto
  have c: "checkIdentifier sample_RegExp (deprecatedLookup sample_apis) ?cfg 0 ''serialise'' = []"
    using ignore_patterns[of sample_RegExp ?cfg "''serialise''" "deprecatedLookup sample_apis" 0] i
    by blast
  have e: "isIgnored sample_RegExp (?cfg\<lparr>ignorePatterns := [''['']\<rparr>) ''[''"
    "\<not> isIgnored sample_RegExp (?cfg\<lparr>ignorePatterns := [''['']\<rparr>) ''serialise''"
    using ignore_patterns[of sample_RegExp ?cfg "''[''" _ _ "[]" "''[''" "[]"]
      ignore_patterns[of sample_RegExp ?cfg "''serialise''" _ _ "[]" "''[''" "[]"] n
    by simp_all
  show ?thesis using n s r i c e by blast
qed


lemma checkIdentifier_severity:
  "checkIdentifier R l (cfg\<lparr>severity := s\<rparr>) node name = checkIdentifier R l cfg node name"
  by (simp add: checkIdentifier_def reportDeprecated_def isIgnored_def
      split: option.splits list.splits)

lemma check_ident_severity: "check_ident R l (cfg\<lparr>severity := s\<rparr>) i = check_ident R l cfg i"
  by (cases i) (simp add: checkIdentifier_severity)

lemma check_if_identifier_severity:
  "check_if_identifier R l (cfg\<lparr>severity := s\<rparr>) n = check_if_identifier R l cfg n"
  by (cases n) (simp_all add: check_ident_severity)

lemma handler_severity: "handler R l (cfg\<lparr>severity := s\<rparr>) n = handler R l cfg n"
  by (cases n)
    (simp_all add: check_ident_severity check_if_identifier_severity split: node.splits option.splits)

lemma destructure_severity:
  "destructure (options\<lparr>opt_severity := s\<rparr>) =
     (destructure options)\<lparr>severity := (case s of None \<Rightarrow> Warn | Some v \<Rightarrow> v)\<rparr>"
  by (simp add: destructure_def)

lemma lint_severity: "lint R apis (options\<lparr>opt_severity := s\<rparr>) program = lint R apis options program"
proof -
  have "create R apis (options\<lparr>opt_severity := s\<rparr>) = create R apis options"
    by (simp add: fun_eq_iff create_def destructure_severity handler_severity)
  then show ?thesis by (simp add: lint_def)
qed

text \<open>
  C1.  The severity option is not read: with the severity \<open>off\<close> the call of a deprecated
  function is still reported, and the reports of a file are the same for every severity.
\<close>

theorem severity_off_still_reports:
  "severity (destructure options_off) = Off
   \<and> lint sample_RegExp sample_apis options_off direct_call =
       [\<lparr>rep_node = 0, rep_messageId = deprecatedApiWithContext, rep_name = ''serialise'',
         rep_reason = ''Reason: Use JSON.stringify instead'',
         rep_file = ''utils/vintageClipboard.ts'', rep_line = ''12''\<rparr>]
   \<and> lint R apis (options\<lparr>opt_severity := s\<rparr>) program = lint R apis options program"
proof -
  have "severity (destructure options_off) = Off"
    by (simp add: destructure_def options_off_def)
  moreover have "lint sample_RegExp sample_apis options_off direct_call =
       [\<lparr>rep_node = 0, rep_messageId = deprecatedApiWithContext, rep_name = ''serialise'',
         rep_reason = ''Reason: Use JSON.stringify instead'',
         rep_file = ''utils/vintageClipboard.ts'', rep_line = ''12''\<rparr>]"
    by (simp add: matcher_defs sample_defs)
  ultimately show ?thesis using lint_severity by blast
qed

text \<open>
  C2.  In a method call the property identifier is looked at by the handler of the call and
  again by the handler of the member access, so this one occurrence is reported twice; the
  callee of a direct call is reported once.
\<close>

theorem method_call_reported_twice:
  "nodes_of method_call =
     [method_call,
      MemberExpression (Identifier (Ident 0 ''clipboard'')) (Identifier (Ident 1 ''serialise'')),
      Identifier (Ident 0 ''clipboard''), Identifier (Ident 1 ''serialise''),
      Identifier (Ident 2 ''items'')]
   \<and> lint sample_RegExp sample_apis options_default method_call =
       [\<lparr>rep_node = 1, rep_messageId = deprecatedApiWithContext, rep_name = ''serialise'',
         rep_reason = ''Reason: Use JSON.stringify instead'',
         rep_file = ''utils/vintageClipboard.ts'', rep_line = ''12''\<rparr>,
        \<lparr>rep_node = 1, rep_messageId = deprecatedApiWithContext, rep_name = ''serialise'',
         rep_reason = ''Reason: Use JSON.stringify instead'',
         rep_file = ''utils/vintageClipboard.ts'', rep_line = ''12''\<rparr>]
   \<and> length (lint sample_RegExp sample_apis options_default direct_call) = 1"
  by (simp add: matcher_defs sample_defs)

section \<open>A line comment annotation is found by two patterns\<close>

lemma rsem_Str_ex:
  "list_all2 (\<lambda>a c. accepts ic (Lit a) c) s s' \<Longrightarrow> \<exists>p'. rsem ic (Str s) (p, s' @ t) (p', t)"
  using rsem_Str by blast

lemma rsem_Star_all:
  "\<forall>c \<in> set xs. accepts ic a c \<Longrightarrow> \<exists>p'. rsem ic (Star (Atom a)) (p, xs @ t) (p', t)"
proof (induction xs arbitrary: p)
  case Nil
  show ?case using rsem_Star0[of ic "Atom a" "(p, t)"] by auto
next
  case (Cons c cs)
  have "rsem ic (Atom a) (p, c # cs @ t) (Suc p, cs @ t)"
    using Cons.prems by (simp add: rsem_Atom)
  moreover obtain p' where "rsem ic (Star (Atom a)) (Suc p, cs @ t) (p', t)"
    using Cons.IH[of "Suc p"] Cons.prems by auto
  ultimately have "rsem ic (Star (Atom a)) (p, c # cs @ t) (p', t)"
    using rsem_StarS[of ic "Atom a" "(p, c # cs @ t)" "(Suc p, cs @ t)" "(p', t)"] by simp
  then show ?case by auto
qed

lemma rsem_StarLazy_all:
  "\<forall>c \<in> set xs. accepts ic a c \<Longrightarrow> \<exists>p'. rsem ic (StarLazy (Atom a)) (p, xs @ t) (p', t)"
proof (induction xs arbitrary: p)
  case Nil
  show ?case using rsem_StarLazy0[of ic "Atom a" "(p, t)"] by auto
next
  case (Cons c cs)
  have "rsem ic (Atom a) (p, c # cs @ t) (Suc p, cs @ t)"
    using Cons.prems by (simp add: rsem_Atom)
  moreover obtain p' where "rsem ic (StarLazy (Atom a)) (Suc p, cs @ t) (p', t)"
    using Cons.IH[of "Suc p"] Cons.prems by auto
  ultimately have "rsem ic (StarLazy (Atom a)) (p, c # cs @ t) (p', t)"
    using rsem_StarLazyS[of ic "Atom a" "(p, c # cs @ t)" "(Suc p, cs @ t)" "(p', t)"] by simp
  then show ?case by auto
qed

lemma rsem_deprecated_word:
  "\<exists>p'. rsem True (Str ''@deprecated'') (p, ''@deprecated'' @ t) (p', t)"
  by (rule rsem_Str_ex) (simp add: canonicalize_def)

lemma rsem_one_space: "rsem True (Plus sp) (p, CHR '' '' # t) (Suc p, t)"
  unfolding Plus_def sp_def
  by (rule rsem_Seq[OF rsem_Atom rsem_Star0]) (simp add: is_space_def)

lemma leading_matches:
  assumes "msg \<noteq> []" and "\<forall>c \<in> set msg. \<not> is_line_terminator c"
  shows "regex_test True deprecated_leading (''// @deprecated '' @ msg)"
proof -
  obtain c cs where msg: "msg = c # cs" using assms(1) by (cases msg) auto
  obtain p1 where 1: "rsem True (Str ''@deprecated'') (3, ''@deprecated'' @ CHR '' '' # msg) (p1, CHR '' '' # msg)"
    using rsem_deprecated_word by blast
  have 2: "rsem True (Plus sp) (p1, CHR '' '' # msg) (Suc p1, msg)"
    by (rule rsem_one_space)
  have d: "rsem True (Atom Dot) (Suc p1, c # cs) (Suc (Suc p1), cs)"
    using assms(2) msg by (simp add: rsem_Atom)
  obtain p3 where l: "rsem True (StarLazy (Atom Dot)) (Suc (Suc p1), cs @ []) (p3, [])"
    using rsem_StarLazy_all[of cs True Dot "Suc (Suc p1)" "[]"] assms(2) msg by auto
  have 3: "rsem True (Group 1 (PlusLazy (Atom Dot))) (Suc p1, msg) (p3, [])"
    unfolding PlusLazy_def msg using d l by (auto intro: rsem_Group rsem_Seq)
  have 4: "rsem True (alts [Atom (Lit (CHR 0x0A)), Eol, Str ''*/'']) (p3, []) (p3, [])"
    by (simp add: rsem_Alt_iff rsem_Eol)
  have "rsem True deprecated_leading (3, ''@deprecated '' @ msg) (p3, [])"
    unfolding deprecated_leading_def seqs.simps
    using 1 2 3 4 by (auto intro!: rsem_Seq)
  moreover have "drop 3 (''// @deprecated '' @ msg) = ''@deprecated '' @ msg" by simp
  ultimately have "\<exists>i \<le> length (''// @deprecated '' @ msg). \<exists>p' s'.
      rsem True deprecated_leading (i, drop i (''// @deprecated '' @ msg)) (p', s')"
    by (intro exI[of _ 3]) auto
  then show ?thesis unfolding regex_test_sem .
qed

lemma line_comment_matches:
  assumes "msg \<noteq> []" and "\<forall>c \<in> set msg. \<not> is_line_terminator c"
  shows "regex_test True deprecated_line_comment (''// @deprecated '' @ msg)"
proof -
  obtain c cs where msg: "msg = c # cs" using assms(1) by (cases msg) auto
  obtain p0 where 0: "rsem True (Str ''//'') (0, ''//'' @ '' @deprecated '' @ msg) (p0, '' @deprecated '' @ msg)"
    using rsem_Str_ex[of True "''//''" "''//''" 0 "'' @deprecated '' @ msg"]
    by (auto simp: canonicalize_def)
  obtain ps where s: "rsem True (Star sp) (p0, '' '' @ ''@deprecated '' @ msg) (ps, ''@deprecated '' @ msg)"
    using rsem_Star_all[of "'' ''" True SpaceC p0 "''@deprecated '' @ msg"]
    by (auto simp: sp_def is_space_def)
  obtain p1 where 1: "rsem True (Str ''@deprecated'') (ps, ''@deprecated'' @ CHR '' '' # msg) (p1, CHR '' '' # msg)"
    using rsem_deprecated_word by blast
  have 2: "rsem True (Plus sp) (p1, CHR '' '' # msg) (Suc p1, msg)"
    by (rule rsem_one_space)
  have d: "rsem True (Atom Dot) (Suc p1, c # cs) (Suc (Suc p1), cs)"
    using assms(2) msg by (simp add: rsem_Atom)
  obtain p3 where l: "rsem True (Star (Atom Dot)) (Suc (Suc p1), cs @ []) (p3, [])"
    using rsem_Star_all[of cs True Dot "Suc (Suc p1)" "[]"] assms(2) msg by auto
  have 3: "rsem True (Group 1 (Plus (Atom Dot))) (Suc p1, msg) (p3, [])"
    unfolding Plus_def msg using d l by (auto intro: rsem_Group rsem_Seq)
  have "rsem True deprecated_line_comment (0, ''// @deprecated '' @ msg) (p3, [])"
    unfolding deprecated_line_comment_def seqs.simps
    using 0 s 1 2 3 by (auto intro!: rsem_Seq)
  then have "\<exists>i \<le> length (''// @deprecated '' @ msg). \<exists>p' s'.
      rsem True deprecated_line_comment (i, drop i (''// @deprecated '' @ msg)) (p', s')"
    by (intro exI[of _ 0]) auto
  then show ?thesis unfolding regex_test_sem .
qed


lemma rsem_Atom_iff:
  "rsem ic (Atom a) (p, xs) y = (\<exists>c cs. xs = c # cs \<and> accepts ic a c \<and> y = (Suc p, cs))"
proof
  assume "rsem ic (Atom a) (p, xs) y"
  then show "\<exists>c cs. xs = c # cs \<and> accepts ic a c \<and> y = (Suc p, cs)"
    by (cases rule: rsem.cases) auto
next
  assume "\<exists>c cs. xs = c # cs \<and> accepts ic a c \<and> y = (Suc p, cs)"
  then show "rsem ic (Atom a) (p, xs) y"
    by (auto intro: rsem_Atom)
qed

lemma canonicalize_star: "canonicalize c = canonicalize CHR ''*'' \<Longrightarrow> c = CHR ''*''"
proof -
  assume a: "canonicalize c = canonicalize CHR ''*''"
  have "canonicalize CHR ''*'' = 42" by (simp add: canonicalize_def)
  with a have "of_char c = (42::nat)"
    by (auto simp: canonicalize_def Let_def split: if_splits)
  then have "c = char_of (42::nat)" by (metis char_of_char)
  moreover have "char_of (42::nat) = CHR ''*''" by (simp add: char_of_def bit_iff_odd)
  ultimately show "c = CHR ''*''" by simp
qed

lemma block_needs_star:
  assumes "regex_test True deprecated_block s"
  shows "CHR ''*'' \<in> set s"
proof -
  from assms obtain i p' s' where "rsem True deprecated_block (i, drop i s) (p', s')"
    unfolding regex_test_sem by blast
  then obtain c1 c2 cs where d: "drop i s = c1 # c2 # cs" and "accepts True (Lit CHR ''*'') c2"
    unfolding deprecated_block_def seqs.simps Str_simps rsem_Seq_iff
    by (auto simp: rsem_Atom_iff)
  then have "c2 = CHR ''*''" by (simp add: canonicalize_star)
  then have "CHR ''*'' \<in> set (drop i s)" using d by simp
  then show ?thesis using set_drop_subset[of i s] by blast
qed

lemma line_items_length:
  "length (line_items ls f i) = length (filter (\<lambda>pat. regex_test True pat (ls ! i)) DEPRECATED_PATTERNS)"
  by (simp add: line_items_def DEPRECATED_PATTERNS_def regex_test_def Let_def split: option.splits)

lemma line_items_line: "it \<in> set (line_items ls f j) \<Longrightarrow> item_line it = j + 1 \<and> item_file it = f"
  by (auto simp: line_items_def Let_def split: option.splits)

lemma filter_line_items:
  "filter (\<lambda>it. item_line it = i + 1) (concat (map (line_items ls f) [0..<n])) =
     (if i < n then line_items ls f i else [])"
proof (induction n)
  case 0
  show ?case by simp
next
  case (Suc n)
  have here: "filter (\<lambda>it. item_line it = i + 1) (line_items ls f n) =
     (if n = i then line_items ls f n else [])"
    using line_items_line[of _ ls f n] by (auto simp: filter_empty_conv filter_id_conv)
  show ?case using Suc.IH here by auto
qed

lemma findDeprecatedItems_line:
  "i < length (split_lines content) \<Longrightarrow>
     filter (\<lambda>it. item_line it = i + 1) (findDeprecatedItems content f) =
       line_items (split_lines content) f i"
  using filter_line_items[of i "split_lines content" f "length (split_lines content)"]
  by (simp add: findDeprecatedItems_def Let_def)

lemma findDeprecatedItems_file: "it \<in> set (findDeprecatedItems content f) \<Longrightarrow> item_file it = f"
  by (auto simp: findDeprecatedItems_def Let_def dest: line_items_line)

lemma count_push:
  "count_records P (push_category c a reg) = count_records P reg + (if P a then 1 else 0)"
  by (induction reg) (auto simp: count_records_def)

lemma count_foldl:
  "count_records (\<lambda>a. api_file a = f \<and> api_line a = n) (foldl categorizeDeprecatedItem reg its) =
     count_records (\<lambda>a. api_file a = f \<and> api_line a = n) reg +
     length (filter (\<lambda>it. item_file it = f \<and> item_line it = n) its)"
  by (induction its arbitrary: reg) (simp_all add: categorizeDeprecatedItem_def Let_def count_push)

lemma count_scanFile:
  assumes "readFileSync e filePath = Inr content" and "i < length (split_lines content)"
  shows "count_records (\<lambda>a. api_file a = getRelativePath e filePath \<and> api_line a = i + 1)
           (scanFile e reg filePath) =
         count_records (\<lambda>a. api_file a = getRelativePath e filePath \<and> api_line a = i + 1) reg +
         length (line_items (split_lines content) (getRelativePath e filePath) i)"
proof -
  let ?f = "getRelativePath e filePath"
  have fe: "filter (\<lambda>it. item_file it = ?f \<and> item_line it = i + 1) (findDeprecatedItems content ?f) =
        filter (\<lambda>it. item_line it = i + 1) (findDeprecatedItems content ?f)"
    by (rule filter_cong) (auto dest: findDeprecatedItems_file)
  have s: "scanFile e reg filePath = foldl categorizeDeprecatedItem reg (findDeprecatedItems content ?f)"
    using assms(1) by (simp add: scanFile_def scanFile_try_def)
  show ?thesis
    unfolding s count_foldl fe findDeprecatedItems_line[OF assms(2)] ..
qed

text \<open>
  C10, as amended.  For a line \<open>// @deprecated\<close> followed by a space and a text that is not
  empty and has no line terminator (no carriage return in particular), the leading-marker
  pattern and the single-line-comment pattern both match, so the scanner pushes one item for
  each of them at that line, and the registry gets one record for each item: two, or three in
  the case that the block-comment pattern matches the line as well, which needs a \<open>*\<close> in
  the text.
\<close>

theorem line_comment_annotation:
  assumes "readFileSync e filePath = Inr content"
    and "i < length (split_lines content)"
    and "split_lines content ! i = ''// @deprecated '' @ msg"
    and "msg \<noteq> []" and "\<forall>c \<in> set msg. \<not> is_line_terminator c"
  shows "regex_test True deprecated_leading (''// @deprecated '' @ msg)
     \<and> regex_test True deprecated_line_comment (''// @deprecated '' @ msg)
     \<and> (CHR ''*'' \<notin> set msg \<longrightarrow> \<not> regex_test True deprecated_block (''// @deprecated '' @ msg))
     \<and> length (filter (\<lambda>it. item_line it = i + 1) (findDeprecatedItems content f)) =
         (if regex_test True deprecated_block (''// @deprecated '' @ msg) then 3 else 2)
     \<and> count_records (\<lambda>a. api_file a = getRelativePath e filePath \<and> api_line a = i + 1)
         (scanFile e reg filePath) =
       count_records (\<lambda>a. api_file a = getRelativePath e filePath \<and> api_line a = i + 1) reg +
         (if regex_test True deprecated_block (''// @deprecated '' @ msg) then 3 else 2)"
proof -
  let ?line = "''// @deprecated '' @ msg"
  have a: "regex_test True deprecated_leading ?line"
    using leading_matches[OF assms(4,5)] .
  have b: "regex_test True deprecated_line_comment ?line"
    using line_comment_matches[OF assms(4,5)] .
  have c: "CHR ''*'' \<notin> set msg \<longrightarrow> \<not> regex_test True deprecated_block ?line"
    using block_needs_star[of ?line] by auto
  have n: "length (line_items (split_lines content) g i) =
     (if regex_test True deprecated_block ?line then 3 else 2)" for g
    unfolding line_items_length assms(3) using a b by (simp add: DEPRECATED_PATTERNS_def)
  have d: "length (filter (\<lambda>it. item_line it = i + 1) (findDeprecatedItems content f)) =
         (if regex_test True deprecated_block ?line then 3 else 2)"
    unfolding findDeprecatedItems_line[OF assms(2)] n ..
  have r: "count_records (\<lambda>a. api_file a = getRelativePath e filePath \<and> api_line a = i + 1)
         (scanFile e reg filePath) =
       count_records (\<lambda>a. api_file a = getRelativePath e filePath \<and> api_line a = i + 1) reg +
         (if regex_test True deprecated_block ?line then 3 else 2)"
    unfolding count_scanFile[OF assms(1,2)] n ..
  show ?thesis using a b c d r by blast
qed


theorem line_comment_annotation_witness:
  "readFileSync annotated_env (sample_root @ ''/a.ts'') = Inr annotated_content
   \<and> 0 < length (split_lines annotated_content)
   \<and> split_lines annotated_content ! 0 = ''// @deprecated '' @ ''use bar''
   \<and> ''use bar'' \<noteq> [] \<and> filter is_line_terminator ''use bar'' = []
   \<and> CHR ''*'' \<notin> set ''use bar''
   \<and> length (filter (\<lambda>it. item_line it = 0 + 1) (findDeprecatedItems annotated_content ''a.ts'')) = 2
   \<and> count_records (\<lambda>a. api_file a = ''a.ts'' \<and> api_line a = 0 + 1)
        (scanFile annotated_env initial_registry (sample_root @ ''/a.ts'')) = 2"
proof -
  have r: "readFileSync annotated_env (sample_root @ ''/a.ts'') = Inr annotated_content"
    by (simp add: annotated_env_def)
  have l: "split_lines annotated_content = [''// @deprecated use bar'', ''function foo() {}'']"
    by (simp add: split_lines_def annotated_content_def)
  have i: "0 < length (split_lines annotated_content)"
    and m: "split_lines annotated_content ! 0 = ''// @deprecated '' @ ''use bar''"
    by (simp_all add: l)
  have t: "''use bar'' \<noteq> []" "\<forall>c \<in> set ''use bar''. \<not> is_line_terminator c"
    "CHR ''*'' \<notin> set ''use bar''"
    by (simp_all add: is_line_terminator_def)
  have p: "getRelativePath annotated_env (sample_root @ ''/a.ts'') = ''a.ts''"
    by (simp add: getRelativePath_def FRONTEND_SOURCE_PATHS_def startsWith_def sample_root_def
        sample_env_def annotated_env_def)
  have z: "count_records (\<lambda>a. api_file a = ''a.ts'' \<and> api_line a = 0 + 1) initial_registry = 0"
    by (simp add: count_records_def initial_registry_def)
  from line_comment_annotation[OF r i m t(1,2), of "''a.ts''" initial_registry] t(3)
  have "length (filter (\<lambda>it. item_line it = 0 + 1) (findDeprecatedItems annotated_content ''a.ts'')) = 2"
    and "count_records (\<lambda>a. api_file a = ''a.ts'' \<and> api_line a = 0 + 1)
        (scanFile annotated_env initial_registry (sample_root @ ''/a.ts'')) = 2"
    unfolding p z by auto
  moreover have "filter is_line_terminator ''use bar'' = []"
    by (simp add: is_line_terminator_def)
  ultimately show ?thesis using r i m t(1,3) by blast
qed

text \<open>
  C10, as stated, fails: in a file with CR LF line ends the line keeps its carriage return,
  which the leading-marker pattern cannot pass, and only the single-line-comment pattern
  matches: one item and one record.
\<close>

theorem line_comment_annotation_counterexample:
  "\<not> regex_test True deprecated_leading crlf_line
   \<and> \<not> regex_test True deprecated_block crlf_line
   \<and> regex_test True deprecated_line_comment crlf_line
   \<and> length (findDeprecatedItems crlf_line ''a.ts'') = 1
   \<and> getTotalCount (foldl categorizeDeprecatedItem initial_registry
        (findDeprecatedItems crlf_line ''a.ts'')) = 1"
proof -
  have a: "\<not> regex_test True deprecated_leading crlf_line"
    by (simp add: crlf_line_def scanner_defs regex_defs char_defs)
  have b: "\<not> regex_test True deprecated_block crlf_line"
    by (simp add: crlf_line_def scanner_defs regex_defs char_defs)
  have c: "regex_test True deprecated_line_comment crlf_line"
    by (simp add: crlf_line_def scanner_defs regex_defs char_defs)
  have l: "split_lines crlf_line = [crlf_line]"
    by (simp add: split_lines_def crlf_line_def)
  have n: "length (findDeprecatedItems crlf_line ''a.ts'') = 1"
    using a b c
    by (simp add: findDeprecatedItems_def l line_items_length DEPRECATED_PATTERNS_def)
  then obtain it where it: "findDeprecatedItems crlf_line ''a.ts'' = [it]"
    by (cases "findDeprecatedItems crlf_line ''a.ts''") auto
  have "getTotalCount (push_category c a reg) = getTotalCount reg + 1" for c a reg
    by (induction reg) (auto simp: getTotalCount_def)
  then have "getTotalCount (foldl categorizeDeprecatedItem initial_registry [it]) = 1"
    by (simp add: categorizeDeprecatedItem_def Let_def getTotalCount_def initial_registry_def)
  then show ?thesis using a b c n it by simp
qed

end
